theory Spec2Isabelle
  imports Complex_Main
begin

section \<open>Exceptions as values\<close>

text \<open>
  The only exception the layout module can raise is the \<^verbatim>\<open>TypeError\<close> of the language
  itself (reading a property of \<^verbatim>\<open>undefined\<close> or \<^verbatim>\<open>null\<close>, converting an object that has
  no usable \<^verbatim>\<open>toString\<close> to a number). A computation that may throw returns
  \<open>error + 'a\<close>, with \<open>Inl\<close> for the exception.
\<close>

datatype error = TypeError

definition then_do :: "error + 'a \<Rightarrow> ('a \<Rightarrow> error + 'b) \<Rightarrow> error + 'b" where
  "then_do r f = (case r of Inl e \<Rightarrow> Inl e | Inr v \<Rightarrow> f v)"

section \<open>Numbers: IEEE 754 binary64 with round-to-nearest, ties-to-even\<close>

text \<open>
  A JavaScript Number is NaN, an infinity, negative zero, or a finite value, kept here as
  the exact rational it denotes (\<open>Fin 0\<close> is positive zero). Arithmetic computes the exact
  rational result and rounds it to the nearest double, ties to even, with gradual
  underflow (quantum \<open>2 powi (- 1074)\<close>) and overflow to infinity.
\<close>

datatype jsnum = NaN | PosInf | NegInf | NegZero | Fin rat

text \<open>The number of binary digits of a positive integer.\<close>

function bit_length :: "int \<Rightarrow> nat" where
  "bit_length n = (if n \<le> 0 then 0 else Suc (bit_length (n div 2)))"
  by pat_completeness auto
termination
  by (relation "measure nat") auto

text \<open>\<open>ilog2 x\<close> is the exponent of the leading bit of a positive rational.\<close>

definition ilog2 :: "rat \<Rightarrow> int" where
  "ilog2 x = (case quotient_of x of (p, q) \<Rightarrow>
     (let d = int (bit_length p) - int (bit_length q)
      in if 2 powi d \<le> x then d else d - 1))"

definition round_half_even :: "rat \<Rightarrow> int" where
  "round_half_even x = (let f = \<lfloor>x\<rfloor>; d = x - of_int f
     in if d < 1 / 2 then f else if 1 / 2 < d then f + 1 else if even f then f else f + 1)"

definition signed_zero :: "bool \<Rightarrow> jsnum" where
  "signed_zero neg = (if neg then NegZero else Fin 0)"

definition signed_inf :: "bool \<Rightarrow> jsnum" where
  "signed_inf neg = (if neg then NegInf else PosInf)"

text \<open>\<open>round_double neg x\<close> rounds the magnitude \<open>x \<ge> 0\<close> and attaches the sign.\<close>

definition round_double :: "bool \<Rightarrow> rat \<Rightarrow> jsnum" where
  "round_double neg x = (if x = 0 then signed_zero neg else
     (let e = max (ilog2 x) (- 1022);
          q = 2 powi (e - 52);
          y = of_int (round_half_even (x / q)) * q
      in if y = 0 then signed_zero neg
         else if 2 powi 1024 \<le> y then signed_inf neg
         else Fin (if neg then - y else y)))"

text \<open>The Number denoted by a decimal literal of the source, such as \<^verbatim>\<open>0.8\<close>.\<close>

definition num_of_rat :: "rat \<Rightarrow> jsnum" where
  "num_of_rat r = round_double (r < 0) \<bar>r\<bar>"

fun is_neg :: "jsnum \<Rightarrow> bool" where
  "is_neg NegInf = True"
| "is_neg NegZero = True"
| "is_neg (Fin r) = (r < 0)"
| "is_neg _ = False"

fun is_inf :: "jsnum \<Rightarrow> bool" where
  "is_inf PosInf = True"
| "is_inf NegInf = True"
| "is_inf _ = False"

fun is_zero :: "jsnum \<Rightarrow> bool" where
  "is_zero NegZero = True"
| "is_zero (Fin r) = (r = 0)"
| "is_zero _ = False"

fun val :: "jsnum \<Rightarrow> rat" where
  "val (Fin r) = r"
| "val _ = 0"

text \<open>The operator \<^verbatim>\<open>*\<close> on two Numbers.\<close>

definition num_mul :: "jsnum \<Rightarrow> jsnum \<Rightarrow> jsnum" where
  "num_mul a b =
     (if a = NaN \<or> b = NaN then NaN
      else if is_inf a \<or> is_inf b
        then (if is_zero a \<or> is_zero b then NaN else signed_inf (is_neg a \<noteq> is_neg b))
      else round_double (is_neg a \<noteq> is_neg b) \<bar>val a * val b\<bar>)"

text \<open>The operator \<^verbatim>\<open>+\<close> on two Numbers, and the comparison \<^verbatim>\<open>==\<close> of two Numbers.\<close>

definition num_add :: "jsnum \<Rightarrow> jsnum \<Rightarrow> jsnum" where
  "num_add a b =
     (if a = NaN \<or> b = NaN then NaN
      else if is_inf a then (if is_inf b \<and> a \<noteq> b then NaN else a)
      else if is_inf b then b
      else (let s = val a + val b
            in if s = 0 then (if a = NegZero \<and> b = NegZero then NegZero else Fin 0)
               else round_double (s < 0) \<bar>s\<bar>))"

definition num_eq :: "jsnum \<Rightarrow> jsnum \<Rightarrow> bool" where
  "num_eq a b = (a \<noteq> NaN \<and> b \<noteq> NaN \<and> (a = b \<or> is_zero a \<and> is_zero b))"

section \<open>Values, property access, coercions\<close>

text \<open>
  The values the module handles: \<^verbatim>\<open>undefined\<close>, \<^verbatim>\<open>null\<close>, booleans, numbers, strings (of
  8-bit characters) and plain objects, an object being the list of its own enumerable
  properties in insertion order. Functions, arrays, symbols and objects with accessors
  or a prototype other than \<^verbatim>\<open>Object.prototype\<close> are outside the model.
\<close>

datatype jsval =
    Undefined
  | Null
  | Bool bool
  | Num jsnum
  | Str string
  | Obj "(string \<times> jsval) list"

fun dec :: "nat \<Rightarrow> string" where
  "dec n = (if n < 10 then [char_of (48 + n)] else dec (n div 10) @ [char_of (48 + n mod 10)])"

text \<open>The own enumerable properties of a string are its characters, keyed by index.\<close>

definition str_props :: "string \<Rightarrow> (string \<times> jsval) list" where
  "str_props s = map (\<lambda>i. (dec i, Str [s ! i])) [0..<length s]"

text \<open>What the spread \<^verbatim>\<open>{...v}\<close> copies: nothing for a value that is not an object or string.\<close>

fun own_props :: "jsval \<Rightarrow> (string \<times> jsval) list" where
  "own_props (Obj ps) = ps"
| "own_props (Str s) = str_props s"
| "own_props _ = []"

text \<open>
  \<^verbatim>\<open>v.k\<close> and \<^verbatim>\<open>v[k]\<close>, for a key \<open>k\<close> that the built-in prototypes do not define (which
  holds for every property name the module reads): a \<^verbatim>\<open>TypeError\<close> on \<^verbatim>\<open>undefined\<close> and
  \<^verbatim>\<open>null\<close>, \<^verbatim>\<open>undefined\<close> for a property that is not there.
\<close>

fun get_prop :: "jsval \<Rightarrow> string \<Rightarrow> error + jsval" where
  "get_prop Undefined k = Inl TypeError"
| "get_prop Null k = Inl TypeError"
| "get_prop (Obj ps) k = Inr (case map_of ps k of Some v \<Rightarrow> v | None \<Rightarrow> Undefined)"
| "get_prop (Str s) k =
     Inr (case map_of (str_props s) k of
            Some v \<Rightarrow> v
          | None \<Rightarrow> if k = ''length'' then Num (Fin (of_nat (length s))) else Undefined)"
| "get_prop (Bool b) k = Inr Undefined"
| "get_prop (Num n) k = Inr Undefined"

text \<open>
  A property \<^verbatim>\<open>k: v\<close> written after a spread in an object literal replaces the value of
  an existing property \<open>k\<close> in place, and is appended otherwise.
\<close>

fun set_prop :: "(string \<times> jsval) list \<Rightarrow> string \<Rightarrow> jsval \<Rightarrow> (string \<times> jsval) list" where
  "set_prop [] k v = [(k, v)]"
| "set_prop ((k', v') # ps) k v =
     (if k' = k then (k, v) # ps else (k', v') # set_prop ps k v)"

fun truthy :: "jsval \<Rightarrow> bool" where
  "truthy Undefined = False"
| "truthy Null = False"
| "truthy (Bool b) = b"
| "truthy (Num n) = (n \<noteq> NaN \<and> n \<noteq> NegZero \<and> n \<noteq> Fin 0)"
| "truthy (Str s) = (s \<noteq> [])"
| "truthy (Obj ps) = True"

subsection \<open>Strings as numbers\<close>

definition is_ws :: "char \<Rightarrow> bool" where
  "is_ws c = (of_char c \<in> {9, 10, 11, 12, 13, 32, 160 :: nat})"

definition trim_ws :: "string \<Rightarrow> string" where
  "trim_ws s = rev (dropWhile is_ws (rev (dropWhile is_ws s)))"

definition digit_of :: "char \<Rightarrow> nat option" where
  "digit_of c = (let n = of_char c :: nat
     in if 48 \<le> n \<and> n \<le> 57 then Some (n - 48)
        else if 97 \<le> n \<and> n \<le> 102 then Some (n - 87)
        else if 65 \<le> n \<and> n \<le> 70 then Some (n - 55)
        else None)"

definition is_digit :: "nat \<Rightarrow> char \<Rightarrow> bool" where
  "is_digit base c = (case digit_of c of Some d \<Rightarrow> d < base | None \<Rightarrow> False)"

definition digits_value :: "nat \<Rightarrow> string \<Rightarrow> int" where
  "digits_value base s =
     foldl (\<lambda>a c. a * int base + (case digit_of c of Some d \<Rightarrow> int d | None \<Rightarrow> 0)) 0 s"

definition nat_lit :: "nat \<Rightarrow> string \<Rightarrow> int option" where
  "nat_lit base s =
     (if s \<noteq> [] \<and> list_all (is_digit base) s then Some (digits_value base s) else None)"

fun signed_int :: "string \<Rightarrow> int option" where
  "signed_int [] = None"
| "signed_int (c # s) =
     (if c = CHR ''+'' then nat_lit 10 s
      else if c = CHR ''-'' then map_option uminus (nat_lit 10 s)
      else nat_lit 10 (c # s))"

fun str_exponent :: "string \<Rightarrow> int option" where
  "str_exponent [] = Some 0"
| "str_exponent (c # s) = (if c = CHR ''e'' \<or> c = CHR ''E'' then signed_int s else None)"

text \<open>An unsigned decimal literal: digits, an optional fraction, an optional exponent.\<close>

definition str_decimal :: "string \<Rightarrow> rat option" where
  "str_decimal s =
     (let ip = takeWhile (is_digit 10) s;
          r1 = dropWhile (is_digit 10) s;
          dot = (r1 \<noteq> [] \<and> hd r1 = CHR ''.'');
          fp = (if dot then takeWhile (is_digit 10) (tl r1) else []);
          r2 = (if dot then dropWhile (is_digit 10) (tl r1) else r1)
      in if ip = [] \<and> fp = [] then None
         else (case str_exponent r2 of
                 None \<Rightarrow> None
               | Some ex \<Rightarrow>
                   Some (of_int (digits_value 10 (ip @ fp)) / 10 ^ length fp * 10 powi ex)))"

text \<open>A hexadecimal, octal or binary integer literal.\<close>

fun str_radix :: "string \<Rightarrow> int option" where
  "str_radix (c0 # c1 # ds) =
     (if c0 \<noteq> CHR ''0'' then None
      else if c1 = CHR ''x'' \<or> c1 = CHR ''X'' then nat_lit 16 ds
      else if c1 = CHR ''o'' \<or> c1 = CHR ''O'' then nat_lit 8 ds
      else if c1 = CHR ''b'' \<or> c1 = CHR ''B'' then nat_lit 2 ds
      else None)"
| "str_radix _ = None"

definition string_to_number :: "string \<Rightarrow> jsnum" where
  "string_to_number s =
     (let t = trim_ws s
      in if t = [] then Fin 0
         else (case str_radix t of
                 Some n \<Rightarrow> num_of_rat (of_int n)
               | None \<Rightarrow>
                   (let neg = (hd t = CHR ''-'');
                        u = (if hd t = CHR ''+'' \<or> hd t = CHR ''-'' then tl t else t)
                    in if u = ''Infinity'' then signed_inf neg
                       else (case str_decimal u of
                               None \<Rightarrow> NaN
                             | Some r \<Rightarrow> round_double neg r))))"

text \<open>
  The conversion of an operand of \<^verbatim>\<open>*\<close> to a Number. A plain object converts through
  \<^verbatim>\<open>Object.prototype.toString\<close> to NaN, unless an own data property \<^verbatim>\<open>toString\<close> shadows
  that method: then no method yields a primitive value, which is a \<^verbatim>\<open>TypeError\<close>.
\<close>

fun to_number :: "jsval \<Rightarrow> error + jsnum" where
  "to_number Undefined = Inr NaN"
| "to_number Null = Inr (Fin 0)"
| "to_number (Bool b) = Inr (Fin (if b then 1 else 0))"
| "to_number (Num n) = Inr n"
| "to_number (Str s) = Inr (string_to_number s)"
| "to_number (Obj ps) = (if ''toString'' \<in> fst ` set ps then Inl TypeError else Inr NaN)"

definition js_times :: "jsval \<Rightarrow> jsval \<Rightarrow> error + jsval" where
  "js_times a b =
     then_do (to_number a) (\<lambda>x. then_do (to_number b) (\<lambda>y. Inr (Num (num_mul x y))))"

section \<open>The layout module\<close>

definition MOUNT_POINT :: string where
  "MOUNT_POINT = ''components/graph/layout''"

definition GRAPH_SIZE_SET :: string where
  "GRAPH_SIZE_SET = MOUNT_POINT @ ''/GRAPH_SIZE_SET''"

definition GRAPH_SELECTION_RECT_SET :: string where
  "GRAPH_SELECTION_RECT_SET = MOUNT_POINT @ ''/GRAPH_SELECTION_RECT_SET''"

definition GRAPH_SELECTION_RECT_CLEAR :: string where
  "GRAPH_SELECTION_RECT_CLEAR = MOUNT_POINT @ ''/GRAPH_SELECTION_RECT_CLEAR''"

definition VIEWPORT_RESET :: string where
  "VIEWPORT_RESET = MOUNT_POINT @ ''/VIEWPORT_RESET''"

definition VIEWPORT_SET :: string where
  "VIEWPORT_SET = MOUNT_POINT @ ''/VIEWPORT_SET''"

subsection \<open>Action creators and selectors\<close>

text \<open>
  A destructured parameter \<^verbatim>\<open>{startDate, endDate}\<close> reads the two properties of the
  argument, and throws when the argument is \<^verbatim>\<open>undefined\<close> or \<^verbatim>\<open>null\<close>.
\<close>

definition setViewport :: "jsval \<Rightarrow> error + jsval" where
  "setViewport arg =
     then_do (get_prop arg ''startDate'') (\<lambda>startDate.
     then_do (get_prop arg ''endDate'') (\<lambda>endDate.
       Inr (Obj [(''type'', Str VIEWPORT_SET),
                 (''payload'', Obj [(''startDate'', startDate), (''endDate'', endDate)])])))"

definition resetViewport :: jsval where
  "resetViewport = Obj [(''type'', Str VIEWPORT_RESET)]"

definition getViewport :: "jsval \<Rightarrow> error + jsval" where
  "getViewport state =
     then_do (get_prop state MOUNT_POINT) (\<lambda>slice. get_prop slice ''viewport'')"

definition setContainerSize :: "jsval \<Rightarrow> error + jsval" where
  "setContainerSize arg =
     then_do (get_prop arg ''width'') (\<lambda>width.
     then_do (get_prop arg ''height'') (\<lambda>height.
       Inr (Obj [(''type'', Str GRAPH_SIZE_SET),
                 (''payload'', Obj [(''width'', width), (''height'', height)])])))"

definition getContainerSize :: "jsval \<Rightarrow> error + jsval" where
  "getContainerSize state =
     then_do (get_prop state MOUNT_POINT) (\<lambda>slice.
     then_do (get_prop slice ''graphSize'') (\<lambda>graphSize.
       Inr (if truthy graphSize then graphSize
            else Obj [(''width'', Num (Fin 0)), (''height'', Num (Fin 0))])))"

definition setSelectionRect :: "jsval \<Rightarrow> error + jsval" where
  "setSelectionRect arg =
     then_do (get_prop arg ''top'') (\<lambda>top.
     then_do (get_prop arg ''left'') (\<lambda>left.
     then_do (get_prop arg ''bottom'') (\<lambda>bottom.
     then_do (get_prop arg ''right'') (\<lambda>right.
       Inr (Obj [(''type'', Str GRAPH_SELECTION_RECT_SET),
                 (''payload'', Obj [(''top'', top), (''left'', left),
                                    (''bottom'', bottom), (''right'', right)])])))))"

definition clearSelectionRect :: jsval where
  "clearSelectionRect = Obj [(''type'', Str GRAPH_SELECTION_RECT_CLEAR)]"

definition getSelectionRect :: "jsval \<Rightarrow> error + jsval" where
  "getSelectionRect state =
     then_do (get_prop state MOUNT_POINT) (\<lambda>slice. get_prop slice ''selectionRect'')"

subsection \<open>Chart positions\<close>

text \<open>
  The function given to \<^verbatim>\<open>createSelector\<close>: the rectangle of a chart type within a
  container of the given size. A chart type that matches no \<^verbatim>\<open>case\<close> falls out of the
  \<^verbatim>\<open>switch\<close>, and the function returns \<^verbatim>\<open>undefined\<close>.
\<close>

definition getChartPosition_resultFunc :: "jsval \<Rightarrow> jsval \<Rightarrow> error + jsval" where
  "getChartPosition_resultFunc chartType containerSize =
     (if chartType = Str ''main'' then
        then_do (get_prop containerSize ''width'') (\<lambda>w.
        then_do (get_prop containerSize ''height'') (\<lambda>h.
        then_do (js_times h (Num (num_of_rat (8 / 10)))) (\<lambda>h8.
          Inr (Obj [(''x'', Num (Fin 0)), (''y'', Num (Fin 0)),
                    (''width'', w), (''height'', h8)]))))
      else if chartType = Str ''panner'' then
        then_do (get_prop containerSize ''height'') (\<lambda>h.
        then_do (js_times h (Num (num_of_rat (8 / 10)))) (\<lambda>h8.
        then_do (get_prop containerSize ''width'') (\<lambda>w.
        then_do (js_times h (Num (num_of_rat (2 / 10)))) (\<lambda>h2.
          Inr (Obj [(''x'', Num (Fin 0)), (''y'', h8),
                    (''width'', w), (''height'', h2)])))))
      else if chartType = Str ''lithography'' then
        then_do (get_prop containerSize ''width'') (\<lambda>w.
        then_do (js_times w (Num (num_of_rat (9 / 10)))) (\<lambda>w9.
        then_do (js_times w (Num (num_of_rat (1 / 10)))) (\<lambda>w1.
        then_do (get_prop containerSize ''height'') (\<lambda>h.
        then_do (js_times h (Num (num_of_rat (8 / 10)))) (\<lambda>h8.
          Inr (Obj [(''x'', w9), (''y'', Num (Fin 0)),
                    (''width'', w1), (''height'', h8)]))))))
      else Inr Undefined)"

text \<open>
  \<^verbatim>\<open>getChartPosition(chartType)(state)\<close>: the selector applies the function above to the
  container size selected from the state. The caches of \<^verbatim>\<open>memoize\<close> and
  \<^verbatim>\<open>createSelector\<close> decide which object instance is returned, not which value.
\<close>

definition getChartPosition :: "jsval \<Rightarrow> jsval \<Rightarrow> error + jsval" where
  "getChartPosition chartType state =
     then_do (getContainerSize state) (getChartPosition_resultFunc chartType)"

subsection \<open>The reducer\<close>

text \<open>The default parameter \<^verbatim>\<open>state = {}\<close> replaces \<^verbatim>\<open>undefined\<close> only.\<close>

definition reducer :: "jsval \<Rightarrow> jsval \<Rightarrow> error + jsval" where
  "reducer state0 action =
     (let state = (if state0 = Undefined then Obj [] else state0)
      in then_do (get_prop action ''type'') (\<lambda>t.
           if t = Str GRAPH_SIZE_SET then
             then_do (get_prop action ''payload'') (\<lambda>payload.
             then_do (get_prop payload ''width'') (\<lambda>width.
             then_do (get_prop payload ''height'') (\<lambda>height.
               Inr (Obj (set_prop (own_props state) ''graphSize''
                           (Obj [(''width'', width), (''height'', height)]))))))
           else if t = Str GRAPH_SELECTION_RECT_SET then
             then_do (get_prop action ''payload'') (\<lambda>payload.
             then_do (get_prop payload ''top'') (\<lambda>top.
             then_do (get_prop payload ''left'') (\<lambda>left.
             then_do (get_prop payload ''bottom'') (\<lambda>bottom.
             then_do (get_prop payload ''right'') (\<lambda>right.
               Inr (Obj (set_prop (own_props state) ''selectionRect''
                           (Obj [(''top'', top), (''left'', left),
                                 (''bottom'', bottom), (''right'', right)]))))))))
           else if t = Str GRAPH_SELECTION_RECT_CLEAR then
             Inr (Obj (set_prop (own_props state) ''selectionRect'' Null))
           else if t = Str VIEWPORT_SET then
             then_do (get_prop action ''payload'') (\<lambda>payload.
             then_do (get_prop payload ''startDate'') (\<lambda>startDate.
             then_do (get_prop payload ''endDate'') (\<lambda>endDate.
               Inr (Obj (set_prop (own_props state) ''viewport''
                           (Obj [(''startDate'', startDate), (''endDate'', endDate)]))))))
           else if t = Str VIEWPORT_RESET then
             Inr (Obj (set_prop (own_props state) ''viewport'' Null))
           else Inr state))"

text \<open>
  The default export mounts the reducer under \<open>MOUNT_POINT\<close>: the store state that the
  selectors read holds the reducer's state under that key.
\<close>

definition mounted :: "jsval \<Rightarrow> jsval" where
  "mounted slice = Obj [(MOUNT_POINT, slice)]"

subsection \<open>Auxiliary notions for the properties\<close>

definition nullish :: "jsval \<Rightarrow> bool" where
  "nullish v = (v = Undefined \<or> v = Null)"

fun primitive :: "jsval \<Rightarrow> bool" where
  "primitive (Obj ps) = False"
| "primitive _ = True"

text \<open>The field of the state that an action type writes, after the \<^verbatim>\<open>switch\<close> of the reducer.\<close>

definition target_field :: "jsval \<Rightarrow> string option" where
  "target_field t =
     (if t = Str GRAPH_SIZE_SET then Some ''graphSize''
      else if t = Str GRAPH_SELECTION_RECT_SET \<or> t = Str GRAPH_SELECTION_RECT_CLEAR
        then Some ''selectionRect''
      else if t = Str VIEWPORT_SET \<or> t = Str VIEWPORT_RESET then Some ''viewport''
      else None)"

text \<open>The expression \<^verbatim>\<open>position(chartType, size).height\<close> of the testable properties.\<close>

definition position_height :: "jsval \<Rightarrow> jsval \<Rightarrow> error + jsval" where
  "position_height chartType containerSize =
     then_do (getChartPosition_resultFunc chartType containerSize) (\<lambda>p. get_prop p ''height'')"

text \<open>
  The sum \<^verbatim>\<open>position("main", size).height + position("panner", size).height\<close>, where
  both heights are Numbers.
\<close>

definition main_panner_height_sum :: "jsval \<Rightarrow> jsnum option" where
  "main_panner_height_sum containerSize =
     (case (position_height (Str ''main'') containerSize,
            position_height (Str ''panner'') containerSize) of
        (Inr (Num a), Inr (Num b)) \<Rightarrow> Some (num_add a b)
      | _ \<Rightarrow> None)"

subsection \<open>Numbers as heights\<close>

text \<open>The largest finite double.\<close>

definition max_double :: rat where
  "max_double = (2 ^ 53 - 1) * 2 powi 971"

text \<open>
  A rational is a double when rounding leaves it unchanged. A finite Number is a value
  of the language when its rational is a double; NaN, the infinities and negative zero
  always are.
\<close>

definition is_double :: "rat \<Rightarrow> bool" where
  "is_double r = (num_of_rat r = Fin r)"

fun is_number :: "jsnum \<Rightarrow> bool" where
  "is_number (Fin r) = is_double r"
| "is_number _ = True"

text \<open>The comparison \<^verbatim>\<open>n >= 0\<close> of a Number with zero.\<close>

fun num_ge_zero :: "jsnum \<Rightarrow> bool" where
  "num_ge_zero NaN = False"
| "num_ge_zero PosInf = True"
| "num_ge_zero NegInf = False"
| "num_ge_zero NegZero = True"
| "num_ge_zero (Fin r) = (0 \<le> r)"

subsection \<open>Scales\<close>

text \<open>
  Modelled from the spec: the file \<^verbatim>\<open>scales.js\<close>, which defines \<^verbatim>\<open>getScaleX\<close> and
  \<^verbatim>\<open>getScaleY\<close>, is missing; only its test \<^verbatim>\<open>scales.spec.js\<close> is there. The container
  size is the spec's entity with a numeric width and height, and a scale is what the spec
  says it exposes for inspection: its configured domain and its configured range. The
  linear mapping itself belongs to the charting library and is not modelled.
\<close>

record container_size =
  cs_width :: jsnum
  cs_height :: jsnum

record scale =
  scale_domain :: "jsnum \<times> jsnum"
  scale_range :: "jsnum \<times> jsnum"

text \<open>
  Modelled from the spec: \<^verbatim>\<open>getScaleX\<close> of the missing \<^verbatim>\<open>scales.js\<close>. "scaleX(domain,
  containerSize) maps domain = [min, max] onto range = [0, containerSize.width]."
\<close>

definition getScaleX :: "jsnum \<times> jsnum \<Rightarrow> container_size \<Rightarrow> scale" where
  "getScaleX d containerSize =
     \<lparr>scale_domain = d, scale_range = (Fin 0, cs_width containerSize)\<rparr>"

text \<open>
  Modelled from the spec: \<^verbatim>\<open>getScaleY\<close> of the missing \<^verbatim>\<open>scales.js\<close>. "scaleY(domain,
  containerSize) maps the same domain shape onto range = [0, containerSize.height]."
\<close>

definition getScaleY :: "jsnum \<times> jsnum \<Rightarrow> container_size \<Rightarrow> scale" where
  "getScaleY d containerSize =
     \<lparr>scale_domain = d, scale_range = (Fin 0, cs_height containerSize)\<rparr>"

section \<open>Facts about rounding\<close>

declare bit_length.simps [simp del]

lemma bit_length_bounds:
  "0 < n \<Longrightarrow> 2 ^ (bit_length n - 1) \<le> n \<and> n < 2 ^ bit_length n"
proof (induction n rule: bit_length.induct)
  case (1 n)
  show ?case
  proof (cases "n div 2 \<le> 0")
    case True
    with "1.prems" have "n = 1" by presburger
    then show ?thesis by (simp add: bit_length.simps)
  next
    case False
    then have pos: "0 < n div 2" by simp
    from "1.IH" [OF _ pos] "1.prems"
    have ih: "2 ^ (bit_length (n div 2) - 1) \<le> n div 2" "n div 2 < 2 ^ bit_length (n div 2)"
      by simp_all
    have bl: "bit_length n = Suc (bit_length (n div 2))"
      using "1.prems" by (subst bit_length.simps) simp
    have blpos: "0 < bit_length (n div 2)"
      using pos by (subst bit_length.simps) simp
    have "(2::int) ^ bit_length (n div 2) = 2 * 2 ^ (bit_length (n div 2) - 1)"
      using blpos by (cases "bit_length (n div 2)") simp_all
    then have lo: "2 ^ bit_length (n div 2) \<le> 2 * (n div 2)" using ih(1) by simp
    have "2 * (n div 2) \<le> n" "n < 2 * (n div 2) + 2" by presburger+
    then show ?thesis using lo ih(2) by (simp add: bl)
  qed
qed

lemma ilog2_bounds:
  assumes "0 < x"
  shows "2 powi ilog2 x \<le> x \<and> x < 2 powi (ilog2 x + 1)"
proof -
  obtain p q where pq: "quotient_of x = (p, q)" by (cases "quotient_of x")
  then have q: "0 < q" and x: "x = of_int p / of_int q"
    by (auto dest: quotient_of_denom_pos quotient_of_div)
  from assms x q have p: "0 < p" by (simp add: zero_less_divide_iff)
  define a where "a = bit_length p"
  define b where "b = bit_length q"
  define d where "d = int a - int b"
  from bit_length_bounds [OF p]
  have P: "2 ^ (a - 1) \<le> p" "p < 2 ^ a" by (simp_all add: a_def)
  from bit_length_bounds [OF q]
  have Q: "2 ^ (b - 1) \<le> q" "q < 2 ^ b" by (simp_all add: b_def)
  have a1: "1 \<le> a" using P(2) p by (cases a) auto
  have b1: "1 \<le> b" using Q(2) q by (cases b) auto
  have Pr: "(2::rat) ^ (a - 1) \<le> of_int p" "(of_int p :: rat) < 2 ^ a"
  proof -
    have "(of_int (2 ^ (a - 1)) :: rat) \<le> of_int p" using P(1) by (simp only: of_int_le_iff)
    then show "(2::rat) ^ (a - 1) \<le> of_int p" by simp
    have "(of_int p :: rat) < of_int (2 ^ a)" using P(2) by (simp only: of_int_less_iff)
    then show "(of_int p :: rat) < 2 ^ a" by simp
  qed
  have Qr: "(2::rat) ^ (b - 1) \<le> of_int q" "(of_int q :: rat) < 2 ^ b"
  proof -
    have "(of_int (2 ^ (b - 1)) :: rat) \<le> of_int q" using Q(1) by (simp only: of_int_le_iff)
    then show "(2::rat) ^ (b - 1) \<le> of_int q" by simp
    have "(of_int q :: rat) < of_int (2 ^ b)" using Q(2) by (simp only: of_int_less_iff)
    then show "(of_int q :: rat) < 2 ^ b" by simp
  qed
  have qpos: "(0::rat) < of_int q" using q by simp
  have upper: "x < 2 powi (d + 1)"
  proof -
    have "x < 2 ^ a / of_int q"
      unfolding x using Pr(2) qpos by (simp add: divide_strict_right_mono)
    also have "\<dots> \<le> 2 ^ a / 2 ^ (b - 1)" using Qr(1) by (simp add: frac_le)
    also have "\<dots> = 2 powi (int a - int (b - 1))" by (simp add: power_int_diff)
    also have "int a - int (b - 1) = d + 1" using b1 by (simp add: d_def)
    finally show ?thesis .
  qed
  have lower: "2 powi (d - 1) \<le> x"
  proof -
    have "d - 1 = int (a - 1) - int b" using a1 by (simp add: d_def)
    then have "(2::rat) powi (d - 1) = 2 powi (int (a - 1) - int b)" by simp
    also have "\<dots> = 2 ^ (a - 1) / 2 ^ b" by (simp add: power_int_diff)
    also have "\<dots> \<le> of_int p / 2 ^ b" using Pr(1) by (simp add: divide_right_mono)
    also have "\<dots> \<le> of_int p / of_int q" using Qr(2) p qpos by (simp add: frac_le)
    finally show ?thesis by (simp add: x)
  qed
  have il: "ilog2 x = (if 2 powi d \<le> x then d else d - 1)"
    by (simp add: ilog2_def pq Let_def a_def b_def d_def)
  show ?thesis
  proof (cases "2 powi d \<le> x")
    case True
    with il upper show ?thesis by simp
  next
    case False
    with il lower show ?thesis by simp
  qed
qed

lemma ilog2_unique:
  assumes "0 < x" "2 powi e \<le> x" "x < 2 powi (e + 1)"
  shows "ilog2 x = e"
proof -
  from ilog2_bounds [OF assms(1)]
  have b: "2 powi ilog2 x \<le> x" "x < 2 powi (ilog2 x + 1)" by simp_all
  have lt: "(2::rat) powi m < 2 powi n \<Longrightarrow> m < n" for m n :: int
    using power_int_increasing [of n m "2::rat"] by (cases "m < n") auto
  have "(2::rat) powi e < 2 powi (ilog2 x + 1)" using assms(2) b(2) by simp
  then have 1: "e < ilog2 x + 1" by (rule lt)
  have "(2::rat) powi ilog2 x < 2 powi (e + 1)" using assms(3) b(1) by simp
  then have 2: "ilog2 x < e + 1" by (rule lt)
  from 1 2 show ?thesis by simp
qed

lemma round_half_even_error: "\<bar>of_int (round_half_even t) - t\<bar> \<le> 1 / 2"
proof -
  have "of_int \<lfloor>t\<rfloor> \<le> t" "t < of_int \<lfloor>t\<rfloor> + 1" by linarith+
  then show ?thesis by (auto simp: round_half_even_def Let_def)
qed

lemma round_half_even_ge:
  assumes "of_int k \<le> t"
  shows "k \<le> round_half_even t"
proof -
  from assms have "k \<le> \<lfloor>t\<rfloor>" by (simp add: le_floor_iff)
  then show ?thesis by (auto simp: round_half_even_def Let_def)
qed

lemma round_half_even_le:
  assumes "t \<le> of_int k"
  shows "round_half_even t \<le> k"
proof (cases "t = of_int k")
  case True
  then show ?thesis by (simp add: round_half_even_def)
next
  case False
  with assms have "t < of_int k" by simp
  then have "\<lfloor>t\<rfloor> < k" by (simp add: floor_less_iff)
  then show ?thesis by (auto simp: round_half_even_def Let_def)
qed

text \<open>
  In the normal range the result is the nearest multiple of the quantum
  \<open>2 powi (e - 52)\<close>, where \<open>e\<close> is the exponent of the leading bit.
\<close>

lemma round_double_normal:
  assumes "2 powi e \<le> x" "x < 2 powi (e + 1)" "- 1022 \<le> e" "e \<le> 1022"
  shows "round_double neg x =
    Fin ((if neg then - 1 else 1) *
         (of_int (round_half_even (x / 2 powi (e - 52))) * 2 powi (e - 52)))"
proof -
  have xpos: "0 < x" using assms(1) by (rule less_le_trans [rotated]) simp
  have il: "ilog2 x = e" using xpos assms(1,2) by (rule ilog2_unique)
  define q :: rat where "q = 2 powi (e - 52)"
  define m where "m = round_half_even (x / q)"
  have qpos: "0 < q" by (simp add: q_def)
  have "e = e - 52 + 52" by simp
  then have "(2::rat) powi e = 2 powi (e - 52 + 52)" by (rule arg_cong)
  also have "\<dots> = q * 2 powi 52" unfolding q_def by (rule power_int_add) simp
  finally have q52: "q * 2 ^ 52 = 2 powi e" by simp
  have "e + 1 = e - 52 + 53" by simp
  then have "(2::rat) powi (e + 1) = 2 powi (e - 52 + 53)" by (rule arg_cong)
  also have "\<dots> = q * 2 powi 53" unfolding q_def by (rule power_int_add) simp
  finally have q53: "q * 2 ^ 53 = 2 powi (e + 1)" by simp
  have "of_int (2 ^ 52) \<le> x / q"
    using assms(1) qpos q52 by (simp add: le_divide_eq mult.commute)
  then have mlo: "2 ^ 52 \<le> m" unfolding m_def by (rule round_half_even_ge)
  have "x / q \<le> of_int (2 ^ 53)"
    using assms(2) qpos q53 by (simp add: divide_le_eq mult.commute)
  then have mhi: "m \<le> 2 ^ 53" unfolding m_def by (rule round_half_even_le)
  have ypos: "0 < of_int m * q" using mlo qpos by (simp add: zero_less_mult_iff)
  have "of_int m * q \<le> of_int (2 ^ 53) * q"
    using mhi qpos by (simp only: mult_le_cancel_right_pos of_int_le_iff)
  also have "\<dots> = q * 2 ^ 53" by simp
  also have "\<dots> = 2 powi (e + 1)" by (rule q53)
  also have "\<dots> < 2 powi 1024" using assms(4) by (intro power_int_strict_increasing) simp_all
  finally have yhi: "\<not> 2 powi 1024 \<le> of_int m * q" by simp
  have "max (ilog2 x) (- 1022) = e" using il assms(3) by simp
  moreover have "m \<noteq> 0" using mlo by auto
  ultimately show ?thesis using xpos ypos yhi
    by (simp add: round_double_def Let_def q_def [symmetric] m_def [symmetric]
        del: power_int_numeral)
qed

subsection \<open>Evaluating the rounding of a quotient of numerals\<close>

lemma round_half_even_of_int_div:
  assumes "0 < q"
  shows "round_half_even (of_int p / of_int q) =
    (let f = p div q; r = p mod q
     in if 2 * r < q then f else if q < 2 * r then f + 1 else if even f then f else f + 1)"
proof -
  have fl: "\<lfloor>(of_int p / of_int q :: rat)\<rfloor> = p div q" by (rule floor_divide_of_int_eq)
  have "(of_int p :: rat) = of_int (p div q * q + p mod q)" by simp
  also have "\<dots> = of_int (p div q) * of_int q + of_int (p mod q)"
    by (simp only: of_int_add of_int_mult)
  finally have "(of_int p / of_int q :: rat) = of_int (p div q) + of_int (p mod q) / of_int q"
    using assms by (simp add: field_simps)
  then have d: "(of_int p / of_int q :: rat) - of_int (p div q) = of_int (p mod q) / of_int q"
    by simp
  have lt: "(of_int (p mod q) / of_int q < (1 / 2 :: rat)) = (2 * (p mod q) < q)"
  proof -
    have "(of_int (p mod q) / of_int q < (1 / 2 :: rat)) =
          ((of_int (2 * (p mod q)) :: rat) < of_int q)"
      using assms by (simp add: field_simps)
    then show ?thesis by (simp only: of_int_less_iff)
  qed
  have gt: "((1 / 2 :: rat) < of_int (p mod q) / of_int q) = (q < 2 * (p mod q))"
  proof -
    have "((1 / 2 :: rat) < of_int (p mod q) / of_int q) =
          ((of_int q :: rat) < of_int (2 * (p mod q)))"
      using assms by (simp add: field_simps)
    then show ?thesis by (simp only: of_int_less_iff)
  qed
  show ?thesis
    unfolding round_half_even_def Let_def fl d lt gt ..
qed

lemma round_half_even_numeral_div:
  "round_half_even (numeral a / numeral b) =
    (let f = numeral a div numeral b; r = (numeral a :: int) mod numeral b
     in if 2 * r < numeral b then f else if numeral b < 2 * r then f + 1
        else if even f then f else f + 1)"
  using round_half_even_of_int_div [of "numeral b" "numeral a", OF zero_less_numeral]
  by (simp only: of_int_numeral)

lemma round_half_even_of_int: "round_half_even (of_int k) = k"
  by (simp add: round_half_even_def)

lemma round_half_even_numeral: "round_half_even (numeral k) = numeral k"
  using round_half_even_of_int [of "numeral k"] by simp

lemmas round_eval = round_half_even_numeral_div round_half_even_numeral Let_def

text \<open>The constants of the source as doubles.\<close>

lemma lit_0_8: "num_of_rat (8 / 10) = Fin (3602879701896397 / 4503599627370496)"
  by (simp add: num_of_rat_def round_double_normal [where e = "- 1"] round_eval)

lemma lit_0_2: "num_of_rat (2 / 10) = Fin (3602879701896397 / 18014398509481984)"
  by (simp add: num_of_rat_def round_double_normal [where e = "- 3"] round_eval)

lemma lit_0_9: "num_of_rat (9 / 10) = Fin (8106479329266893 / 9007199254740992)"
  by (simp add: num_of_rat_def round_double_normal [where e = "- 1"] round_eval)

lemma lit_0_1: "num_of_rat (1 / 10) = Fin (3602879701896397 / 36028797018963968)"
  by (simp add: num_of_rat_def round_double_normal [where e = "- 4"] round_eval)

text \<open>The operator \<^verbatim>\<open>*\<close> is commutative.\<close>

lemma num_mul_commute: "num_mul a b = num_mul b a"
proof -
  have s: "(is_neg a \<noteq> is_neg b) = (is_neg b \<noteq> is_neg a)" by auto
  have m: "val a * val b = val b * val a" by (rule mult.commute)
  show ?thesis unfolding num_mul_def s m by (simp add: disj_commute)
qed

text \<open>The products and the sum of the heights for the height 3.\<close>

lemma mul_3_08:
  "num_mul (Fin 3) (num_of_rat (8 / 10)) = Fin (1351079888211149 / 562949953421312)"
  unfolding lit_0_8 by (simp add: num_mul_def round_double_normal [where e = 1] round_eval)

lemma mul_3_02:
  "num_mul (Fin 3) (num_of_rat (2 / 10)) = Fin (1351079888211149 / 2251799813685248)"
  unfolding lit_0_2
  by (simp add: num_mul_def round_double_normal [where e = "- 1"] round_eval)

lemma add_3:
  "num_add (Fin (1351079888211149 / 562949953421312)) (Fin (1351079888211149 / 2251799813685248))
    = Fin (6755399441055745 / 2251799813685248)"
  by (simp add: num_add_def round_double_normal [where e = 1] round_eval)

subsection \<open>The error of rounding\<close>

lemma max_double_less: "max_double < 2 powi 1024"
proof -
  have "max_double < 2 ^ 53 * 2 powi 971" unfolding max_double_def
    by (rule mult_strict_right_mono) simp_all
  also have "\<dots> = 2 powi 53 * 2 powi 971" by simp
  also have "\<dots> = 2 powi (53 + 971)" by (rule power_int_add [symmetric]) simp
  finally show ?thesis by simp
qed

lemma round_half_even_unique:
  assumes "\<bar>t - of_int m\<bar> < 1 / 2"
  shows "round_half_even t = m"
proof -
  have e: "\<bar>of_int (round_half_even t) - t\<bar> \<le> 1 / 2" by (rule round_half_even_error)
  have "\<bar>(of_int (round_half_even t) :: rat) - of_int m\<bar> < 1" using assms e by linarith
  then have "\<bar>(of_int (round_half_even t - m) :: rat)\<bar> < of_int 1" by simp
  then have "\<bar>round_half_even t - m\<bar> < 1"
    by (simp only: of_int_abs [symmetric] of_int_less_iff)
  then show ?thesis by simp
qed

text \<open>Rounding a positive value up to the largest double.\<close>

lemma round_double_error:
  assumes "0 < x" "x \<le> max_double"
  shows "\<exists>y. round_double False x = Fin y \<and> 0 \<le> y \<and> y \<le> max_double
     \<and> (\<bar>y - x\<bar> \<le> x * 2 powi (- 53) \<or> \<bar>y - x\<bar> \<le> 2 powi (- 1075))"
proof -
  define M :: rat where "M = max_double"
  have lt: "(2::rat) powi m < 2 powi n \<Longrightarrow> m < n" for m n :: int
    using power_int_increasing [of n m "2::rat"] by (cases "m < n") auto
  have Mlt: "M < 2 powi 1024" unfolding M_def by (rule max_double_less)
  define e0 where "e0 = ilog2 x"
  from ilog2_bounds [OF assms(1)]
  have b: "2 powi e0 \<le> x" "x < 2 powi (e0 + 1)" by (simp_all add: e0_def)
  have "(2::rat) powi e0 < 2 powi 1024" using b(1) assms(2) Mlt unfolding M_def by linarith
  then have e0hi: "e0 \<le> 1023" using lt [of e0 1024] by simp
  define e where "e = max e0 (- 1022)"
  have ehi: "e \<le> 1023" and elo: "- 1022 \<le> e" and ee0: "e0 \<le> e"
    using e0hi by (simp_all add: e_def)
  define q :: rat where "q = 2 powi (e - 52)"
  define m where "m = round_half_even (x / q)"
  have qpos: "0 < q" by (simp add: q_def)
  define K :: int where "K = (2 ^ 53 - 1) * 2 ^ nat (1023 - e)"
  have Kq: "of_int K * q = M"
  proof -
    have "971 = int (nat (1023 - e)) + (e - 52)" using ehi by simp
    then have "(2::rat) powi 971 = 2 powi (int (nat (1023 - e)) + (e - 52))"
      by (rule arg_cong)
    also have "\<dots> = 2 powi int (nat (1023 - e)) * 2 powi (e - 52)"
      by (rule power_int_add) simp
    also have "\<dots> = 2 ^ nat (1023 - e) * q"
      by (simp only: power_int_of_nat q_def)
    finally have "(2::rat) powi 971 = 2 ^ nat (1023 - e) * q" .
    then have "M = (2 ^ 53 - 1) * (2 ^ nat (1023 - e) * q)"
      by (simp only: M_def max_double_def)
    also have "\<dots> = of_int K * q"
      by (simp only: K_def of_int_mult of_int_diff of_int_power of_int_numeral of_int_1
          mult.assoc)
    finally show ?thesis by simp
  qed
  have "x / q \<le> of_int K"
    using assms(2) qpos Kq by (simp add: divide_le_eq M_def [symmetric])
  then have mK: "m \<le> K" unfolding m_def by (rule round_half_even_le)
  have "(of_int 0 :: rat) \<le> x / q" using assms(1) qpos by simp
  then have m0: "0 \<le> m" unfolding m_def by (rule round_half_even_ge)
  define y where "y = of_int m * q"
  have y0: "0 \<le> y" using m0 qpos by (simp add: y_def)
  have yM: "y \<le> M"
  proof -
    have "of_int m * q \<le> of_int K * q"
      using mK qpos by (simp only: mult_le_cancel_right_pos of_int_le_iff)
    then show ?thesis by (simp add: y_def Kq)
  qed
  have rd: "round_double False x = Fin y"
  proof (cases "y = 0")
    case True
    have m: "m = 0" using True qpos by (simp add: y_def)
    show ?thesis using assms(1) True m
      by (simp add: round_double_def Let_def e_def [symmetric] e0_def [symmetric]
          q_def [symmetric] m_def [symmetric] y_def [symmetric] signed_zero_def
          del: power_int_numeral)
  next
    case False
    then have "m \<noteq> 0" by (auto simp: y_def)
    moreover have "\<not> 2 powi 1024 \<le> y" using yM Mlt by linarith
    ultimately show ?thesis using assms(1) False
      by (simp add: round_double_def Let_def e_def [symmetric] e0_def [symmetric]
          q_def [symmetric] m_def [symmetric] y_def [symmetric]
          del: power_int_numeral)
  qed
  have "\<bar>of_int m - x / q\<bar> \<le> 1 / 2" unfolding m_def by (rule round_half_even_error)
  then have "\<bar>of_int m - x / q\<bar> * q \<le> 1 / 2 * q"
    using qpos by (simp only: mult_le_cancel_right_pos)
  moreover have "\<bar>of_int m - x / q\<bar> * q = \<bar>y - x\<bar>"
  proof -
    have "\<bar>of_int m - x / q\<bar> * q = \<bar>(of_int m - x / q) * q\<bar>"
      using qpos by (simp add: abs_mult)
    also have "(of_int m - x / q) * q = y - x"
      using qpos by (simp add: field_simps y_def)
    finally show ?thesis .
  qed
  ultimately have err: "\<bar>y - x\<bar> \<le> q / 2" by simp
  have q2: "q / 2 = 2 powi e * 2 powi (- 53)"
  proof -
    have "(2::rat) powi (e - 52) = 2 powi (e + (- 52))" by simp
    also have "\<dots> = 2 powi e * 2 powi (- 52)" by (rule power_int_add) simp
    finally show ?thesis by (simp add: q_def)
  qed
  have "\<bar>y - x\<bar> \<le> x * 2 powi (- 53) \<or> \<bar>y - x\<bar> \<le> 2 powi (- 1075)"
  proof (cases "- 1022 \<le> e0")
    case True
    then have "e = e0" by (simp add: e_def)
    then have "q / 2 \<le> x * 2 powi (- 53)" using b(1) q2 by (simp add: mult_right_mono)
    then show ?thesis using err by linarith
  next
    case False
    then have "e = - 1022" by (simp add: e_def)
    then have "q / 2 = 2 powi (- 1022) * 2 powi (- 53)" using q2 by simp
    also have "\<dots> = 2 powi (- 1022 + (- 53))" by (rule power_int_add [symmetric]) simp
    finally have "q / 2 = 2 powi (- 1075)" by simp
    then show ?thesis using err by simp
  qed
  with rd y0 yM show ?thesis unfolding M_def by blast
qed

subsection \<open>The sum of the two heights\<close>

text \<open>
  The heights are the roundings of the products of the height with the doubles nearest
  to 0.8 and 0.2, which are \<open>4 / 5\<close> and \<open>1 / 5\<close> times \<open>1 + 2 powi (- 54)\<close>.
\<close>

lemma num_mul_0_8:
  "0 < h \<Longrightarrow> num_mul (Fin h) (num_of_rat (8 / 10)) =
     round_double False (h * (3602879701896397 / 4503599627370496))"
  unfolding lit_0_8 by (simp add: num_mul_def abs_mult)

lemma num_mul_0_2:
  "0 < h \<Longrightarrow> num_mul (Fin h) (num_of_rat (2 / 10)) =
     round_double False (h * (3602879701896397 / 18014398509481984))"
  unfolding lit_0_2 by (simp add: num_mul_def abs_mult)

lemma num_add_pos:
  "0 < a + b \<Longrightarrow> num_add (Fin a) (Fin b) = round_double False (a + b)"
  by (simp add: num_add_def Let_def)

lemma heights_close_normal:
  assumes "2 powi (- 1022) \<le> h" "h \<le> (2 ^ 53 - 4) * 2 powi 971"
  shows "\<exists>t. num_add (num_mul (Fin h) (num_of_rat (8 / 10)))
                    (num_mul (Fin h) (num_of_rat (2 / 10))) = Fin t
             \<and> \<bar>t - h\<bar> \<le> h * 2 powi (- 51)"
proof -
  define Q :: rat where "Q = 2 powi 971"
  define U :: rat where "U = 2 powi (- 1075)"
  have Qpos: "0 < Q" by (simp add: Q_def)
  have Upos: "0 < U" by (simp add: U_def)
  have M: "max_double = 9007199254740992 * Q - Q"
    by (simp add: max_double_def Q_def algebra_simps del: power_int_numeral)
  have hQ: "h \<le> 9007199254740992 * Q - 4 * Q"
    using assms(2) by (simp add: Q_def algebra_simps del: power_int_numeral)
  have "(0::rat) < 2 powi (- 1022)" by simp
  then have hpos: "0 < h" using assms(1) by (rule less_le_trans)
  have "U = 2 powi (- 1022 + (- 53))" by (simp add: U_def)
  also have "\<dots> = 2 powi (- 1022) * 2 powi (- 53)" by (rule power_int_add) simp
  also have "\<dots> \<le> h * 2 powi (- 53)" using assms(1) by (rule mult_right_mono) simp
  finally have hU: "U \<le> h / 9007199254740992" by simp
  define x1 where "x1 = h * (3602879701896397 / 4503599627370496)"
  define x2 where "x2 = h * (3602879701896397 / 18014398509481984)"
  have x1b: "h / 2 \<le> x1" "x1 \<le> h" using hpos by (simp_all add: x1_def)
  have x2b: "h / 8 \<le> x2" "x2 \<le> h / 4" using hpos by (simp_all add: x2_def)
  have x12: "x1 + x2 = h + h / 18014398509481984"
    by (simp add: x1_def x2_def field_simps)
  have "0 < x1" "x1 \<le> max_double" using x1b hpos hQ Qpos M by linarith+
  from round_double_error [OF this] obtain a where
    a: "round_double False x1 = Fin a"
    and ae: "\<bar>a - x1\<bar> \<le> x1 * 2 powi (- 53) \<or> \<bar>a - x1\<bar> \<le> U"
    unfolding U_def by blast
  have A: "\<bar>a - x1\<bar> \<le> h / 9007199254740992"
  proof -
    have "x1 * 2 powi (- 53) = x1 / 9007199254740992" by simp
    then show ?thesis using ae x1b hU hpos by linarith
  qed
  have "0 < x2" "x2 \<le> max_double" using x2b hpos hQ Qpos M by linarith+
  from round_double_error [OF this] obtain b where
    b: "round_double False x2 = Fin b"
    and be: "\<bar>b - x2\<bar> \<le> x2 * 2 powi (- 53) \<or> \<bar>b - x2\<bar> \<le> U"
    unfolding U_def by blast
  have B: "\<bar>b - x2\<bar> \<le> h / 9007199254740992"
  proof -
    have "x2 * 2 powi (- 53) = x2 / 9007199254740992" by simp
    then show ?thesis using be x2b hU hpos by linarith
  qed
  have abpos: "0 < a + b" using A B x1b x2b hpos by linarith
  have abup: "a + b \<le> h + h / 18014398509481984 + h / 4503599627370496"
    using A B x12 by linarith
  have "a + b \<le> max_double" using abup hQ Qpos M hpos by linarith
  from round_double_error [OF abpos this] obtain s where
    s: "round_double False (a + b) = Fin s"
    and se: "\<bar>s - (a + b)\<bar> \<le> (a + b) * 2 powi (- 53) \<or> \<bar>s - (a + b)\<bar> \<le> U"
    unfolding U_def by blast
  have "\<bar>s - h\<bar> \<le> h / 2251799813685248"
  proof -
    have "(a + b) * 2 powi (- 53) = a / 9007199254740992 + b / 9007199254740992"
      by (simp add: add_divide_distrib)
    then have "\<bar>s - (a + b)\<bar> \<le> a / 9007199254740992 + b / 9007199254740992
        \<or> \<bar>s - (a + b)\<bar> \<le> h / 9007199254740992"
      using se hU by linarith
    then show ?thesis
    proof
      assume "\<bar>s - (a + b)\<bar> \<le> a / 9007199254740992 + b / 9007199254740992"
      then show ?thesis using A B x12 hpos by linarith
    next
      assume "\<bar>s - (a + b)\<bar> \<le> h / 9007199254740992"
      then show ?thesis using A B x12 hpos by linarith
    qed
  qed
  moreover have "(2::rat) powi (- 51) = 1 / 2251799813685248" by simp
  ultimately have "\<bar>s - h\<bar> \<le> h * 2 powi (- 51)" by simp
  moreover have "num_add (num_mul (Fin h) (num_of_rat (8 / 10)))
                    (num_mul (Fin h) (num_of_rat (2 / 10))) = Fin s"
    unfolding num_mul_0_8 [OF hpos] num_mul_0_2 [OF hpos] x1_def [symmetric]
      x2_def [symmetric] a b num_add_pos [OF abpos] s ..
  ultimately show ?thesis by blast
qed

text \<open>Below the normal range, every double is a multiple of \<open>2 powi (- 1074)\<close>.\<close>

lemma round_double_small:
  assumes "0 < x" "x < 2 powi (- 1021)"
  shows "round_double False x =
    Fin (of_int (round_half_even (x / 2 powi (- 1074))) * 2 powi (- 1074))"
proof -
  have lt: "(2::rat) powi m < 2 powi n \<Longrightarrow> m < n" for m n :: int
    using power_int_increasing [of n m "2::rat"] by (cases "m < n") auto
  from ilog2_bounds [OF assms(1)] have "2 powi ilog2 x \<le> x" by simp
  then have "(2::rat) powi ilog2 x < 2 powi (- 1021)" using assms(2) by linarith
  then have "ilog2 x < - 1021" by (rule lt)
  then have e: "max (ilog2 x) (- 1022) = - 1022" by simp
  define q :: rat where "q = 2 powi (- 1074)"
  define m where "m = round_half_even (x / q)"
  have qpos: "0 < q" by (simp add: q_def)
  have "(2::rat) powi (- 1021) = 2 powi (53 + (- 1074))" by simp
  also have "\<dots> = 2 powi 53 * 2 powi (- 1074)" by (rule power_int_add) simp
  finally have q53: "(2::rat) powi (- 1021) = of_int (2 ^ 53) * q" by (simp add: q_def)
  have "x / q \<le> of_int (2 ^ 53)" using assms(2) qpos q53 by (simp add: divide_le_eq)
  then have mhi: "m \<le> 2 ^ 53" unfolding m_def by (rule round_half_even_le)
  have "of_int m * q \<le> of_int (2 ^ 53) * q"
    using mhi qpos by (simp only: mult_le_cancel_right_pos of_int_le_iff)
  also have "\<dots> = 2 powi (- 1021)" by (rule q53 [symmetric])
  also have "\<dots> < 2 powi 1024" by (rule power_int_strict_increasing) simp_all
  finally have yhi: "\<not> 2 powi 1024 \<le> of_int m * q" by simp
  have "- 1022 - 52 = (- 1074 :: int)" by simp
  show ?thesis
  proof (cases "m = 0")
    case True
    then show ?thesis using assms(1) e
      by (simp add: round_double_def Let_def q_def [symmetric] m_def [symmetric]
          signed_zero_def del: power_int_numeral power_int_numeral_neg_numeral)
  next
    case False
    then show ?thesis using assms(1) e yhi qpos
      by (simp add: round_double_def Let_def q_def [symmetric] m_def [symmetric]
          del: power_int_numeral power_int_numeral_neg_numeral)
  qed
qed

text \<open>
  Four fifths and one fifth of an integer below \<open>2 ^ 52\<close>, each rounded to an integer:
  the sum is the integer itself below \<open>2 ^ 51\<close>, and differs from it by at most 1 above.
\<close>

lemma fifths_sum:
  fixes k :: int
  assumes "0 \<le> k" "k < 2 ^ 52"
  defines "m1 \<equiv> round_half_even (of_int k * (3602879701896397 / 4503599627370496))"
    and "m2 \<equiv> round_half_even (of_int k * (3602879701896397 / 18014398509481984))"
  shows "\<bar>m1 + m2 - k\<bar> \<le> 1" and "k < 2 ^ 51 \<Longrightarrow> m1 + m2 = k"
proof -
  define K :: rat where "K = of_int k"
  have K: "0 \<le> K" "K < 4503599627370496"
  proof -
    show "0 \<le> K" using assms(1) by (simp add: K_def)
    have "(of_int k :: rat) < of_int (2 ^ 52)" using assms(2) by (simp only: of_int_less_iff)
    then show "K < 4503599627370496" by (simp add: K_def)
  qed
  define t1 where "t1 = K * (3602879701896397 / 4503599627370496)"
  define t2 where "t2 = K * (3602879701896397 / 18014398509481984)"
  have e1: "\<bar>of_int m1 - t1\<bar> \<le> 1 / 2"
    unfolding m1_def t1_def K_def by (rule round_half_even_error)
  have e2: "\<bar>of_int m2 - t2\<bar> \<le> 1 / 2"
    unfolding m2_def t2_def K_def by (rule round_half_even_error)
  have t12: "t1 + t2 = K + K / 18014398509481984"
    by (simp add: t1_def t2_def field_simps)
  have "\<bar>(of_int m1 :: rat) + of_int m2 - K\<bar> < 2" using e1 e2 t12 K by linarith
  then have "\<bar>(of_int (m1 + m2 - k) :: rat)\<bar> < of_int 2" by (simp add: K_def)
  then have "\<bar>m1 + m2 - k\<bar> < 2" by (simp only: of_int_abs [symmetric] of_int_less_iff)
  then show "\<bar>m1 + m2 - k\<bar> \<le> 1" by simp
  show "m1 + m2 = k" if small: "k < 2 ^ 51"
  proof -
    have "(of_int k :: rat) < of_int (2 ^ 51)" using small by (simp only: of_int_less_iff)
    then have Ks: "K < 2251799813685248" by (simp add: K_def)
    define n where "n = k div 5"
    define r where "r = k mod 5"
    have k: "k = 5 * n + r" and r: "0 \<le> r" "r < 5" by (simp_all add: n_def r_def)
    define N :: rat where "N = of_int n"
    have r5: "r = 0 \<or> r = 1 \<or> r = 2 \<or> r = 3 \<or> r = 4" using r by presburger
    have uniq1: "m1 = m" if "\<bar>t1 - of_int m\<bar> < 1 / 2" for m
      using that unfolding m1_def t1_def K_def by (rule round_half_even_unique)
    have uniq2: "m2 = m" if "\<bar>t2 - of_int m\<bar> < 1 / 2" for m
      using that unfolding m2_def t2_def K_def by (rule round_half_even_unique)
    have KN: "K = 5 * N + of_int r" unfolding K_def N_def using k by simp
    have T1: "4503599627370496 * t1 = 3602879701896397 * K" by (simp add: t1_def)
    have T2: "18014398509481984 * t2 = 3602879701896397 * K" by (simp add: t2_def)
    from r5 show ?thesis
    proof (elim disjE)
      assume r0: "r = 0"
      then have KN': "K = 5 * N + 0" using KN by simp
      have "\<bar>t1 - (4 * N)\<bar> < 1 / 2" using T1 KN' K Ks by linarith
      moreover have "(of_int (4 * n) :: rat) = 4 * N" by (simp add: N_def)
      ultimately have "\<bar>t1 - of_int (4 * n)\<bar> < 1 / 2" by simp
      then have "m1 = 4 * n" by (rule uniq1)
      moreover have "m2 = n"
      proof -
        have "\<bar>t2 - (N)\<bar> < 1 / 2" using T2 KN' K Ks by linarith
        moreover have "(of_int (n) :: rat) = N" by (simp add: N_def)
        ultimately have "\<bar>t2 - of_int (n)\<bar> < 1 / 2" by simp
        then show ?thesis by (rule uniq2)
      qed
      ultimately show ?thesis using k r0 by simp
    next
      assume r1: "r = 1"
      then have KN': "K = 5 * N + 1" using KN by simp
      have "\<bar>t1 - (4 * N + 1)\<bar> < 1 / 2" using T1 KN' K Ks by linarith
      moreover have "(of_int (4 * n + 1) :: rat) = 4 * N + 1" by (simp add: N_def)
      ultimately have "\<bar>t1 - of_int (4 * n + 1)\<bar> < 1 / 2" by simp
      then have "m1 = 4 * n + 1" by (rule uniq1)
      moreover have "m2 = n"
      proof -
        have "\<bar>t2 - (N)\<bar> < 1 / 2" using T2 KN' K Ks by linarith
        moreover have "(of_int (n) :: rat) = N" by (simp add: N_def)
        ultimately have "\<bar>t2 - of_int (n)\<bar> < 1 / 2" by simp
        then show ?thesis by (rule uniq2)
      qed
      ultimately show ?thesis using k r1 by simp
    next
      assume r2: "r = 2"
      then have KN': "K = 5 * N + 2" using KN by simp
      have "\<bar>t1 - (4 * N + 2)\<bar> < 1 / 2" using T1 KN' K Ks by linarith
      moreover have "(of_int (4 * n + 2) :: rat) = 4 * N + 2" by (simp add: N_def)
      ultimately have "\<bar>t1 - of_int (4 * n + 2)\<bar> < 1 / 2" by simp
      then have "m1 = 4 * n + 2" by (rule uniq1)
      moreover have "m2 = n"
      proof -
        have "\<bar>t2 - (N)\<bar> < 1 / 2" using T2 KN' K Ks by linarith
        moreover have "(of_int (n) :: rat) = N" by (simp add: N_def)
        ultimately have "\<bar>t2 - of_int (n)\<bar> < 1 / 2" by simp
        then show ?thesis by (rule uniq2)
      qed
      ultimately show ?thesis using k r2 by simp
    next
      assume r3: "r = 3"
      then have KN': "K = 5 * N + 3" using KN by simp
      have "\<bar>t1 - (4 * N + 2)\<bar> < 1 / 2" using T1 KN' K Ks by linarith
      moreover have "(of_int (4 * n + 2) :: rat) = 4 * N + 2" by (simp add: N_def)
      ultimately have "\<bar>t1 - of_int (4 * n + 2)\<bar> < 1 / 2" by simp
      then have "m1 = 4 * n + 2" by (rule uniq1)
      moreover have "m2 = n + 1"
      proof -
        have "\<bar>t2 - (N + 1)\<bar> < 1 / 2" using T2 KN' K Ks by linarith
        moreover have "(of_int (n + 1) :: rat) = N + 1" by (simp add: N_def)
        ultimately have "\<bar>t2 - of_int (n + 1)\<bar> < 1 / 2" by simp
        then show ?thesis by (rule uniq2)
      qed
      ultimately show ?thesis using k r3 by simp
    next
      assume r4: "r = 4"
      then have KN': "K = 5 * N + 4" using KN by simp
      have "\<bar>t1 - (4 * N + 3)\<bar> < 1 / 2" using T1 KN' K Ks by linarith
      moreover have "(of_int (4 * n + 3) :: rat) = 4 * N + 3" by (simp add: N_def)
      ultimately have "\<bar>t1 - of_int (4 * n + 3)\<bar> < 1 / 2" by simp
      then have "m1 = 4 * n + 3" by (rule uniq1)
      moreover have "m2 = n + 1"
      proof -
        have "\<bar>t2 - (N + 1)\<bar> < 1 / 2" using T2 KN' K Ks by linarith
        moreover have "(of_int (n + 1) :: rat) = N + 1" by (simp add: N_def)
        ultimately have "\<bar>t2 - of_int (n + 1)\<bar> < 1 / 2" by simp
        then show ?thesis by (rule uniq2)
      qed
      ultimately show ?thesis using k r4 by simp
    qed
  qed
qed

lemma heights_close_subnormal:
  fixes k :: int
  assumes "1 \<le> k" "k < 2 ^ 52"
  shows "\<exists>t. num_add (num_mul (Fin (of_int k * 2 powi (- 1074))) (num_of_rat (8 / 10)))
                    (num_mul (Fin (of_int k * 2 powi (- 1074))) (num_of_rat (2 / 10))) = Fin t
             \<and> \<bar>t - of_int k * 2 powi (- 1074)\<bar> \<le> of_int k * 2 powi (- 1074) * 2 powi (- 51)"
proof -
  define u :: rat where "u = 2 powi (- 1074)"
  define h where "h = of_int k * u"
  have upos: "0 < u" by (simp add: u_def)
  have kpos: "(0::rat) < of_int k" using assms(1) by simp
  have hpos: "0 < h" using kpos upos by (simp add: h_def)
  have "(2::rat) powi (- 1021) = 2 powi (53 + (- 1074))" by simp
  also have "\<dots> = 2 powi 53 * 2 powi (- 1074)" by (rule power_int_add) simp
  finally have u53: "(2::rat) powi (- 1021) = 9007199254740992 * u" by (simp add: u_def)
  have "(of_int k :: rat) < of_int (2 ^ 52)" using assms(2) by (simp only: of_int_less_iff)
  then have kK: "(of_int k :: rat) < 4503599627370496" by simp
  then have "of_int k * u < 4503599627370496 * u"
    using upos by (simp only: mult_less_cancel_right_pos)
  then have hup: "h < 4503599627370496 * u" by (simp add: h_def)
  define m1 where "m1 = round_half_even (of_int k * (3602879701896397 / 4503599627370496))"
  define m2 where "m2 = round_half_even (of_int k * (3602879701896397 / 18014398509481984))"
  from fifths_sum [of k] assms
  have f1: "\<bar>m1 + m2 - k\<bar> \<le> 1" and f2: "k < 2 ^ 51 \<Longrightarrow> m1 + m2 = k"
    by (simp_all add: m1_def m2_def)
  define x1 where "x1 = h * (3602879701896397 / 4503599627370496)"
  define x2 where "x2 = h * (3602879701896397 / 18014398509481984)"
  have x1b: "0 < x1" "x1 \<le> h" using hpos by (simp_all add: x1_def)
  have x2b: "0 < x2" "x2 \<le> h" using hpos by (simp_all add: x2_def)
  have "x1 < 2 powi (- 1021)" using x1b hup upos unfolding u53 by linarith
  from round_double_small [OF x1b(1) this]
  have "round_double False x1 = Fin (of_int (round_half_even (x1 / u)) * u)"
    by (simp only: u_def)
  moreover have "x1 / u = of_int k * (3602879701896397 / 4503599627370496)"
    using upos by (simp add: x1_def h_def)
  ultimately have a: "round_double False x1 = Fin (of_int m1 * u)" by (simp only: m1_def)
  have "x2 < 2 powi (- 1021)" using x2b hup upos unfolding u53 by linarith
  from round_double_small [OF x2b(1) this]
  have "round_double False x2 = Fin (of_int (round_half_even (x2 / u)) * u)"
    by (simp only: u_def)
  moreover have "x2 / u = of_int k * (3602879701896397 / 18014398509481984)"
    using upos by (simp add: x2_def h_def)
  ultimately have b: "round_double False x2 = Fin (of_int m2 * u)" by (simp only: m2_def)
  define j where "j = m1 + m2"
  have jk: "\<bar>j - k\<bar> \<le> 1" using f1 by (simp add: j_def)
  have jpos: "1 \<le> j"
  proof (cases "k < 2 ^ 51")
    case True
    then show ?thesis using f2 assms(1) by (simp add: j_def)
  next
    case False
    then show ?thesis using jk by simp
  qed
  have ab: "of_int m1 * u + of_int m2 * u = of_int j * u"
    by (simp add: j_def algebra_simps)
  have jrat: "(0::rat) < of_int j" using jpos by simp
  have abpos: "0 < of_int m1 * u + of_int m2 * u" unfolding ab using jrat upos by simp
  have "j \<le> 2 ^ 52" using jk assms(2) by simp
  then have "(of_int j :: rat) \<le> of_int (2 ^ 52)" by (simp only: of_int_le_iff)
  then have "(of_int j :: rat) \<le> 4503599627370496" by simp
  then have "of_int j * u \<le> 4503599627370496 * u"
    using upos by (simp only: mult_le_cancel_right_pos)
  then have "of_int j * u < 2 powi (- 1021)" using upos unfolding u53 by linarith
  from round_double_small [OF _ this] jrat upos
  have "round_double False (of_int j * u) = Fin (of_int (round_half_even (of_int j * u / u)) * u)"
    by (simp only: u_def zero_less_mult_iff simp_thms)
  moreover have "of_int j * u / u = (of_int j :: rat)" using upos by simp
  ultimately have s: "round_double False (of_int j * u) = Fin (of_int j * u)"
    by (simp only: round_half_even_of_int)
  have sum: "num_add (num_mul (Fin h) (num_of_rat (8 / 10)))
                    (num_mul (Fin h) (num_of_rat (2 / 10))) = Fin (of_int j * u)"
    unfolding num_mul_0_8 [OF hpos] num_mul_0_2 [OF hpos] x1_def [symmetric]
      x2_def [symmetric] a b num_add_pos [OF abpos] ab s ..
  have "\<bar>(of_int j :: rat) - of_int k\<bar> \<le> of_int k / 2251799813685248"
  proof (cases "k < 2 ^ 51")
    case True
    then have "j = k" using f2 by (simp add: j_def)
    then show ?thesis using kpos by simp
  next
    case False
    then have "(2 ^ 51 :: int) \<le> k" by simp
    then have "(of_int (2 ^ 51) :: rat) \<le> of_int k" by (simp only: of_int_le_iff)
    then have "(1::rat) \<le> of_int k / 2251799813685248" by simp
    moreover have "\<bar>(of_int (j - k) :: rat)\<bar> \<le> of_int 1"
      using jk by (simp only: of_int_abs [symmetric] of_int_le_iff)
    ultimately show ?thesis by simp
  qed
  then have "\<bar>(of_int j :: rat) - of_int k\<bar> * u \<le> of_int k / 2251799813685248 * u"
    using upos by (simp only: mult_le_cancel_right_pos)
  moreover have "\<bar>(of_int j :: rat) - of_int k\<bar> * u = \<bar>of_int j * u - h\<bar>"
  proof -
    have "\<bar>(of_int j :: rat) - of_int k\<bar> * u = \<bar>(of_int j - of_int k) * u\<bar>"
      using upos by (simp add: abs_mult)
    then show ?thesis by (simp add: h_def algebra_simps)
  qed
  moreover have "of_int k / 2251799813685248 * u = h * 2 powi (- 51)"
    by (simp add: h_def)
  ultimately have "\<bar>of_int j * u - h\<bar> \<le> h * 2 powi (- 51)" by simp
  with sum show ?thesis unfolding h_def u_def by blast
qed

text \<open>The three largest doubles, by computation.\<close>

lemma round_double_at:
  assumes "2 powi e \<le> x" "x < 2 powi (e + 1)" "- 1022 \<le> e"
    and "of_int (round_half_even (x / 2 powi (e - 52))) * 2 powi (e - 52) < (2::rat) powi 1024"
  shows "round_double False x =
    Fin (of_int (round_half_even (x / 2 powi (e - 52))) * 2 powi (e - 52))"
proof -
  have xpos: "0 < x" using assms(1) by (rule less_le_trans [rotated]) simp
  have il: "ilog2 x = e" using xpos assms(1,2) by (rule ilog2_unique)
  define q :: rat where "q = 2 powi (e - 52)"
  define m where "m = round_half_even (x / q)"
  have qpos: "0 < q" by (simp add: q_def)
  have "e = e - 52 + 52" by simp
  then have "(2::rat) powi e = 2 powi (e - 52 + 52)" by (rule arg_cong)
  also have "\<dots> = q * 2 powi 52" unfolding q_def by (rule power_int_add) simp
  finally have q52: "q * 2 ^ 52 = 2 powi e" by simp
  have "of_int (2 ^ 52) \<le> x / q"
    using assms(1) qpos q52 by (simp add: le_divide_eq mult.commute)
  then have mlo: "2 ^ 52 \<le> m" unfolding m_def by (rule round_half_even_ge)
  then have m0: "m \<noteq> 0" by auto
  have yhi: "\<not> 2 powi 1024 \<le> of_int m * q"
    using assms(4) unfolding q_def [symmetric] m_def [symmetric] by linarith
  have "max (ilog2 x) (- 1022) = e" using il assms(3) by simp
  then show ?thesis using xpos yhi m0 qpos
    by (simp add: round_double_def Let_def q_def [symmetric] m_def [symmetric]
        del: power_int_numeral)
qed

lemma heights_sum_value:
  assumes "0 < h"
    and "round_double False (h * (3602879701896397 / 4503599627370496)) = Fin a"
    and "round_double False (h * (3602879701896397 / 18014398509481984)) = Fin b"
    and "0 < a + b"
    and "round_double False (a + b) = Fin s"
  shows "num_add (num_mul (Fin h) (num_of_rat (8 / 10)))
                 (num_mul (Fin h) (num_of_rat (2 / 10))) = Fin s"
  unfolding num_mul_0_8 [OF assms(1)] num_mul_0_2 [OF assms(1)] assms(2,3)
    num_add_pos [OF assms(4)] assms(5) ..

lemma heights_close_top1:
  "\<exists>t. num_add (num_mul (Fin (9007199254740991 * 2 powi 971)) (num_of_rat (8 / 10)))
                    (num_mul (Fin (9007199254740991 * 2 powi 971)) (num_of_rat (2 / 10))) = Fin t
             \<and> \<bar>t - 9007199254740991 * 2 powi 971\<bar> \<le> 9007199254740991 * 2 powi 971 * 2 powi (- 51)"
proof -
  define h :: rat where "h = 9007199254740991 * 2 powi 971"
  define a :: rat where "a = 7205759403792793 * 2 powi 971"
  define b :: rat where "b = 7205759403792793 * 2 powi 969"
  define s :: rat where "s = 9007199254740991 * 2 powi 971"
  have hpos: "0 < h" by (simp add: h_def)
  have 1: "round_double False (h * (3602879701896397 / 4503599627370496)) = Fin a"
    by (simp add: h_def a_def round_double_at [where e = 1023] round_eval)
  have 2: "round_double False (h * (3602879701896397 / 18014398509481984)) = Fin b"
    by (simp add: h_def b_def round_double_at [where e = 1021] round_eval)
  have 3: "0 < a + b" by (simp add: a_def b_def)
  have 4: "round_double False (a + b) = Fin s"
    by (simp add: a_def b_def s_def round_double_at [where e = 1023] round_eval)
  have "\<bar>s - h\<bar> \<le> h * 2 powi (- 51)" by (simp add: s_def h_def)
  with heights_sum_value [OF hpos 1 2 3 4] show ?thesis unfolding h_def by blast
qed

lemma heights_close_top2:
  "\<exists>t. num_add (num_mul (Fin (9007199254740990 * 2 powi 971)) (num_of_rat (8 / 10)))
                    (num_mul (Fin (9007199254740990 * 2 powi 971)) (num_of_rat (2 / 10))) = Fin t
             \<and> \<bar>t - 9007199254740990 * 2 powi 971\<bar> \<le> 9007199254740990 * 2 powi 971 * 2 powi (- 51)"
proof -
  define h :: rat where "h = 9007199254740990 * 2 powi 971"
  define a :: rat where "a = 7205759403792792 * 2 powi 971"
  define b :: rat where "b = 7205759403792792 * 2 powi 969"
  define s :: rat where "s = 9007199254740990 * 2 powi 971"
  have hpos: "0 < h" by (simp add: h_def)
  have 1: "round_double False (h * (3602879701896397 / 4503599627370496)) = Fin a"
    by (simp add: h_def a_def round_double_at [where e = 1023] round_eval)
  have 2: "round_double False (h * (3602879701896397 / 18014398509481984)) = Fin b"
    by (simp add: h_def b_def round_double_at [where e = 1021] round_eval)
  have 3: "0 < a + b" by (simp add: a_def b_def)
  have 4: "round_double False (a + b) = Fin s"
    by (simp add: a_def b_def s_def round_double_at [where e = 1023] round_eval)
  have "\<bar>s - h\<bar> \<le> h * 2 powi (- 51)" by (simp add: s_def h_def)
  with heights_sum_value [OF hpos 1 2 3 4] show ?thesis unfolding h_def by blast
qed

lemma heights_close_top3:
  "\<exists>t. num_add (num_mul (Fin (9007199254740989 * 2 powi 971)) (num_of_rat (8 / 10)))
                    (num_mul (Fin (9007199254740989 * 2 powi 971)) (num_of_rat (2 / 10))) = Fin t
             \<and> \<bar>t - 9007199254740989 * 2 powi 971\<bar> \<le> 9007199254740989 * 2 powi 971 * 2 powi (- 51)"
proof -
  define h :: rat where "h = 9007199254740989 * 2 powi 971"
  define a :: rat where "a = 7205759403792792 * 2 powi 971"
  define b :: rat where "b = 7205759403792792 * 2 powi 969"
  define s :: rat where "s = 9007199254740990 * 2 powi 971"
  have hpos: "0 < h" by (simp add: h_def)
  have 1: "round_double False (h * (3602879701896397 / 4503599627370496)) = Fin a"
    by (simp add: h_def a_def round_double_at [where e = 1023] round_eval)
  have 2: "round_double False (h * (3602879701896397 / 18014398509481984)) = Fin b"
    by (simp add: h_def b_def round_double_at [where e = 1021] round_eval)
  have 3: "0 < a + b" by (simp add: a_def b_def)
  have 4: "round_double False (a + b) = Fin s"
    by (simp add: a_def b_def s_def round_double_at [where e = 1023] round_eval)
  have "\<bar>s - h\<bar> \<le> h * 2 powi (- 51)" by (simp add: s_def h_def)
  with heights_sum_value [OF hpos 1 2 3 4] show ?thesis unfolding h_def by blast
qed

text \<open>Every positive double falls under one of the three cases.\<close>

lemma is_double_mantissa:
  assumes "is_double r" "0 < r"
  shows "r = of_int (round_half_even (r / 2 powi (max (ilog2 r) (- 1022) - 52)))
               * 2 powi (max (ilog2 r) (- 1022) - 52)"
    and "r < 2 powi 1024"
proof -
  define q :: rat where "q = 2 powi (max (ilog2 r) (- 1022) - 52)"
  define y where "y = of_int (round_half_even (r / q)) * q"
  have rd: "round_double False r = Fin r"
    using assms by (simp add: is_double_def num_of_rat_def)
  have qpos: "0 < q" by (simp add: q_def)
  have y0: "(round_half_even (r / q) = 0) = (y = 0)" using qpos by (simp add: y_def)
  have rd': "round_double False r =
    (if y = 0 then Fin 0 else if 2 powi 1024 \<le> y then PosInf else Fin y)"
    using assms(2) qpos
    by (simp add: round_double_def Let_def q_def [symmetric] y0 y_def [symmetric]
        signed_zero_def signed_inf_def del: power_int_numeral)
  have "y = r \<and> y < 2 powi 1024"
  proof (cases "y = 0")
    case True
    then show ?thesis using rd rd' assms(2) by simp
  next
    case False
    show ?thesis
    proof (cases "2 powi 1024 \<le> y")
      case True
      then show ?thesis using rd rd' False by (simp del: power_int_numeral)
    next
      case False
      then show ?thesis using rd rd' \<open>y \<noteq> 0\<close> by (simp del: power_int_numeral)
    qed
  qed
  then show "r = of_int (round_half_even (r / 2 powi (max (ilog2 r) (- 1022) - 52)))
               * 2 powi (max (ilog2 r) (- 1022) - 52)"
    and "r < 2 powi 1024"
    by (simp_all add: y_def q_def del: power_int_numeral)
qed

lemma heights_close_double:
  assumes "is_double r" "0 < r"
  shows "\<exists>t. num_add (num_mul (Fin r) (num_of_rat (8 / 10)))
                    (num_mul (Fin r) (num_of_rat (2 / 10))) = Fin t
             \<and> \<bar>t - r\<bar> \<le> r * 2 powi (- 51)"
proof -
  have lt: "(2::rat) powi m < 2 powi n \<Longrightarrow> m < n" for m n :: int
    using power_int_increasing [of n m "2::rat"] by (cases "m < n") auto
  note mant = is_double_mantissa [OF assms]
  consider (small) "r < 2 powi (- 1022)"
    | (normal) "2 powi (- 1022) \<le> r" "r \<le> (2 ^ 53 - 4) * 2 powi 971"
    | (top) "(2 ^ 53 - 4) * 2 powi 971 < r"
    by linarith
  then show ?thesis
  proof cases
    case small
    define u :: rat where "u = 2 powi (- 1074)"
    have upos: "0 < u" by (simp add: u_def)
    from ilog2_bounds [OF assms(2)] have "2 powi ilog2 r \<le> r" by simp
    then have "(2::rat) powi ilog2 r < 2 powi (- 1022)" using small by linarith
    then have "ilog2 r < - 1022" by (rule lt)
    then have "max (ilog2 r) (- 1022) - 52 = - 1074" by simp
    then have r: "r = of_int (round_half_even (r / u)) * u"
      using mant(1) by (simp only: u_def)
    define k where "k = round_half_even (r / u)"
    have rk: "r = of_int k * u" using r by (simp only: k_def)
    have "(0::rat) < of_int k" using assms(2) upos rk by (simp add: zero_less_mult_iff)
    then have k1: "1 \<le> k" by simp
    have "(2::rat) powi (- 1022) = 2 powi (52 + (- 1074))" by simp
    also have "\<dots> = 2 powi 52 * 2 powi (- 1074)" by (rule power_int_add) simp
    finally have "(2::rat) powi (- 1022) = of_int (2 ^ 52) * u" by (simp add: u_def)
    then have "r < of_int (2 ^ 52) * u" using small by (simp only:)
    then have "of_int k * u < of_int (2 ^ 52) * u" by (simp only: rk [symmetric])
    then have "(of_int k :: rat) < of_int (2 ^ 52)"
      using upos by (simp only: mult_less_cancel_right_pos)
    then have k2: "k < 2 ^ 52" by (simp only: of_int_less_iff)
    from heights_close_subnormal [OF k1 k2] show ?thesis
      unfolding u_def [symmetric] rk [symmetric] .
  next
    case normal
    then show ?thesis by (rule heights_close_normal)
  next
    case top
    define Q :: rat where "Q = 2 powi 971"
    have Qpos: "0 < Q" by (simp add: Q_def)
    have "(2::rat) powi 1023 = 2 powi (52 + 971)" by simp
    also have "\<dots> = 2 powi 52 * 2 powi 971" by (rule power_int_add) simp
    finally have p1023: "(2::rat) powi 1023 = 4503599627370496 * Q" by (simp add: Q_def)
    have "(2::rat) powi 1024 = 2 powi (53 + 971)" by simp
    also have "\<dots> = 2 powi 53 * 2 powi 971" by (rule power_int_add) simp
    finally have p1024: "(2::rat) powi 1024 = 9007199254740992 * Q" by (simp add: Q_def)
    have top': "9007199254740988 * Q < r" using top by (simp add: Q_def del: power_int_numeral)
    have "2 powi 1023 \<le> r" unfolding p1023 using top' Qpos by linarith
    moreover have "r < 2 powi (1023 + 1)" using mant(2) by simp
    ultimately have "ilog2 r = 1023" by (rule ilog2_unique [OF assms(2)])
    then have "max (ilog2 r) (- 1022) - 52 = 971" by simp
    then have r: "r = of_int (round_half_even (r / Q)) * Q"
      using mant(1) by (simp only: Q_def)
    define k where "k = round_half_even (r / Q)"
    have rk: "r = of_int k * Q" using r by (simp only: k_def)
    have "of_int (9007199254740988) * Q < of_int k * Q" using top' rk by simp
    then have "(of_int 9007199254740988 :: rat) < of_int k"
      using Qpos by (simp only: mult_less_cancel_right_pos)
    then have k1: "9007199254740988 < k" by (simp only: of_int_less_iff)
    have "of_int k * Q < of_int 9007199254740992 * Q" using mant(2) rk p1024 by simp
    then have "(of_int k :: rat) < of_int 9007199254740992"
      using Qpos by (simp only: mult_less_cancel_right_pos)
    then have k2: "k < 9007199254740992" by (simp only: of_int_less_iff)
    from k1 k2 have "k = 9007199254740989 \<or> k = 9007199254740990 \<or> k = 9007199254740991"
      by presburger
    then show ?thesis
    proof (elim disjE)
      assume "k = 9007199254740989"
      then have "r = 9007199254740989 * 2 powi 971" using rk by (simp only: Q_def of_int_numeral)
      then show ?thesis using heights_close_top3 by (simp only:)
    next
      assume "k = 9007199254740990"
      then have "r = 9007199254740990 * 2 powi 971" using rk by (simp only: Q_def of_int_numeral)
      then show ?thesis using heights_close_top2 by (simp only:)
    next
      assume "k = 9007199254740991"
      then have "r = 9007199254740991 * 2 powi 971" using rk by (simp only: Q_def of_int_numeral)
      then show ?thesis using heights_close_top1 by (simp only:)
    qed
  qed
qed

section \<open>Facts about objects and action types\<close>

lemma map_of_set_prop_same: "map_of (set_prop ps k v) k = Some v"
  by (induction ps) auto

lemma map_of_set_prop_other: "k' \<noteq> k \<Longrightarrow> map_of (set_prop ps k v) k' = map_of ps k'"
  by (induction ps) auto

lemma get_prop_set_prop_same: "get_prop (Obj (set_prop ps k v)) k = Inr v"
  by (simp add: map_of_set_prop_same)

lemma get_prop_set_prop_other:
  "k' \<noteq> k \<Longrightarrow> get_prop (Obj (set_prop ps k v)) k' = get_prop (Obj ps) k'"
  by (simp add: map_of_set_prop_other)

lemmas action_type_defs =
  GRAPH_SIZE_SET_def GRAPH_SELECTION_RECT_SET_def GRAPH_SELECTION_RECT_CLEAR_def
  VIEWPORT_RESET_def VIEWPORT_SET_def MOUNT_POINT_def

lemma get_prop_not_nullish: "\<not> nullish v \<Longrightarrow> \<exists>x. get_prop v k = Inr x"
  by (cases v) (simp_all add: nullish_def)

lemma to_number_primitive: "primitive v \<Longrightarrow> \<exists>n. to_number v = Inr n"
  by (cases v) simp_all

lemma js_times_primitive: "primitive v \<Longrightarrow> \<exists>x. js_times v (Num c) = Inr x"
  by (cases v) (simp_all add: js_times_def then_do_def)

text \<open>The state that the reducer returns: the input with one field written, or the input.\<close>

lemma reducer_result:
  assumes "reducer state action = Inr s'" "get_prop action ''type'' = Inr t"
  shows "(\<exists>k v. target_field t = Some k
            \<and> s' = Obj (set_prop (own_props (if state = Undefined then Obj [] else state)) k v))
         \<or> (target_field t = None \<and> s' = (if state = Undefined then Obj [] else state))"
  using assms
  by (auto simp: reducer_def then_do_def Let_def target_field_def action_type_defs
      split: sum.splits if_splits)

lemma reducer_total:
  assumes "\<not> nullish action" "get_prop action ''payload'' = Inr p" "\<not> nullish p"
  shows "\<exists>s'. reducer state action = Inr s'"
proof -
  obtain t where t: "get_prop action ''type'' = Inr t"
    using get_prop_not_nullish [OF assms(1)] by blast
  have f: "\<exists>x. get_prop p k = Inr x" for k
    using get_prop_not_nullish [OF assms(3)] by blast
  obtain w h tp l b r sd ed where
    "get_prop p ''width'' = Inr w" "get_prop p ''height'' = Inr h"
    "get_prop p ''top'' = Inr tp" "get_prop p ''left'' = Inr l"
    "get_prop p ''bottom'' = Inr b" "get_prop p ''right'' = Inr r"
    "get_prop p ''startDate'' = Inr sd" "get_prop p ''endDate'' = Inr ed"
    using f by metis
  then show ?thesis using t assms(2)
    by (simp add: reducer_def then_do_def Let_def)
qed

lemma reducer_total_no_payload:
  assumes "get_prop action ''type'' = Inr t" "t \<noteq> Str GRAPH_SIZE_SET"
    "t \<noteq> Str GRAPH_SELECTION_RECT_SET" "t \<noteq> Str VIEWPORT_SET"
  shows "\<exists>s'. reducer state action = Inr s'"
  using assms by (simp add: reducer_def then_do_def Let_def)

lemma selectors_total:
  assumes "get_prop store MOUNT_POINT = Inr slice" "\<not> nullish slice"
  shows "(\<exists>v. getViewport store = Inr v) \<and> (\<exists>v. getSelectionRect store = Inr v)
       \<and> (\<exists>v. getContainerSize store = Inr v)"
proof -
  obtain a b c where "get_prop slice ''viewport'' = Inr a"
    "get_prop slice ''selectionRect'' = Inr b" "get_prop slice ''graphSize'' = Inr c"
    using get_prop_not_nullish [OF assms(2)] by metis
  then show ?thesis using assms(1)
    by (simp add: getViewport_def getSelectionRect_def getContainerSize_def then_do_def)
qed

lemma creators_total:
  assumes "\<not> nullish arg"
  shows "(\<exists>a. setViewport arg = Inr a) \<and> (\<exists>a. setContainerSize arg = Inr a)
       \<and> (\<exists>a. setSelectionRect arg = Inr a)"
proof -
  obtain w h tp l b r sd ed where
    "get_prop arg ''width'' = Inr w" "get_prop arg ''height'' = Inr h"
    "get_prop arg ''top'' = Inr tp" "get_prop arg ''left'' = Inr l"
    "get_prop arg ''bottom'' = Inr b" "get_prop arg ''right'' = Inr r"
    "get_prop arg ''startDate'' = Inr sd" "get_prop arg ''endDate'' = Inr ed"
    using get_prop_not_nullish [OF assms] by metis
  then show ?thesis
    by (simp add: setViewport_def setContainerSize_def setSelectionRect_def then_do_def)
qed

lemma resultFunc_total:
  assumes "get_prop containerSize ''width'' = Inr w" "get_prop containerSize ''height'' = Inr h"
     "primitive w" "primitive h"
  shows "\<exists>p. getChartPosition_resultFunc chartType containerSize = Inr p"
proof -
  obtain h8 h2 w9 w1 where
    "js_times h (Num (num_of_rat (8 / 10))) = Inr h8"
    "js_times h (Num (num_of_rat (2 / 10))) = Inr h2"
    "js_times w (Num (num_of_rat (9 / 10))) = Inr w9"
    "js_times w (Num (num_of_rat (1 / 10))) = Inr w1"
    using js_times_primitive [OF assms(3)] js_times_primitive [OF assms(4)] by metis
  then show ?thesis using assms(1,2)
    by (simp add: getChartPosition_resultFunc_def then_do_def)
qed

text \<open>The sum of the two heights as the module computes it.\<close>

lemma height_sum_eq_num:
  "main_panner_height_sum (Obj [(''width'', w), (''height'', Num h)]) =
     Some (num_add (num_mul h (num_of_rat (8 / 10))) (num_mul h (num_of_rat (2 / 10))))"
  by (simp add: main_panner_height_sum_def position_height_def getChartPosition_resultFunc_def
      then_do_def js_times_def)

section \<open>The properties of the layout module\<close>

text \<open>
  C1. For every container size with a numeric width \<open>w\<close> and height \<open>h\<close>, the position
  function returns exactly the fixed-ratio rectangles, the products being those of the
  operator \<^verbatim>\<open>*\<close> on doubles: for \<^verbatim>\<open>main\<close> \<^verbatim>\<open>{x: 0, y: 0, width: w, height: 0.8 * h}\<close>, for
  \<^verbatim>\<open>panner\<close> \<^verbatim>\<open>{x: 0, y: 0.8 * h, width: w, height: 0.2 * h}\<close>, for \<^verbatim>\<open>lithography\<close>
  \<^verbatim>\<open>{x: 0.9 * w, y: 0, width: 0.1 * w, height: 0.8 * h}\<close>; and the selector
  \<^verbatim>\<open>getChartPosition(chartType)\<close> returns what this function returns on the container size
  of the store state.
\<close>

theorem chart_position_rectangles:
  "getChartPosition_resultFunc (Str ''main'') (Obj [(''width'', Num w), (''height'', Num h)]) =
      Inr (Obj [(''x'', Num (Fin 0)), (''y'', Num (Fin 0)), (''width'', Num w),
                (''height'', Num (num_mul (num_of_rat (8 / 10)) h))])
   \<and> getChartPosition_resultFunc (Str ''panner'')
        (Obj [(''width'', Num w), (''height'', Num h)]) =
      Inr (Obj [(''x'', Num (Fin 0)), (''y'', Num (num_mul (num_of_rat (8 / 10)) h)),
                (''width'', Num w), (''height'', Num (num_mul (num_of_rat (2 / 10)) h))])
   \<and> getChartPosition_resultFunc (Str ''lithography'')
        (Obj [(''width'', Num w), (''height'', Num h)]) =
      Inr (Obj [(''x'', Num (num_mul (num_of_rat (9 / 10)) w)), (''y'', Num (Fin 0)),
                (''width'', Num (num_mul (num_of_rat (1 / 10)) w)),
                (''height'', Num (num_mul (num_of_rat (8 / 10)) h))])
   \<and> getChartPosition chartType
        (mounted (Obj [(''graphSize'', Obj [(''width'', Num w), (''height'', Num h)])])) =
      getChartPosition_resultFunc chartType (Obj [(''width'', Num w), (''height'', Num h)])"
proof -
  have c: "num_mul x (num_of_rat r) = num_mul (num_of_rat r) x" for x r
    by (rule num_mul_commute)
  show ?thesis
    unfolding getChartPosition_resultFunc_def getChartPosition_def getContainerSize_def
      mounted_def then_do_def js_times_def
    by (simp add: c)
qed

text \<open>
  C2. The reducer realises the transition table: on the empty state, a set-container-size
  action carrying \<^verbatim>\<open>{width: 100, height: 50}\<close> gives the state
  \<^verbatim>\<open>{graphSize: {width: 100, height: 50}}\<close>; on any state, a clear-selection-rect action
  gives a state whose \<^verbatim>\<open>selectionRect\<close> is \<^verbatim>\<open>null\<close>, and a viewport-reset action a state
  whose \<^verbatim>\<open>viewport\<close> is \<^verbatim>\<open>null\<close>; and for every state (a value other than \<^verbatim>\<open>undefined\<close>,
  which the default parameter replaces) and every action whose type is none of the five
  recognised ones, the reducer returns the input state itself.
\<close>

theorem reducer_transition_table:
  "reducer (Obj [])
     (Obj [(''type'', Str GRAPH_SIZE_SET),
           (''payload'', Obj [(''width'', Num (Fin 100)), (''height'', Num (Fin 50))])])
     = Inr (Obj [(''graphSize'', Obj [(''width'', Num (Fin 100)), (''height'', Num (Fin 50))])])
   \<and> (\<exists>s'. reducer state (Obj [(''type'', Str GRAPH_SELECTION_RECT_CLEAR)]) = Inr s'
        \<and> get_prop s' ''selectionRect'' = Inr Null)
   \<and> (\<exists>s'. reducer state (Obj [(''type'', Str VIEWPORT_RESET)]) = Inr s'
        \<and> get_prop s' ''viewport'' = Inr Null)
   \<and> (state \<noteq> Undefined \<and> get_prop action ''type'' = Inr t
        \<and> t \<noteq> Str GRAPH_SIZE_SET \<and> t \<noteq> Str GRAPH_SELECTION_RECT_SET
        \<and> t \<noteq> Str GRAPH_SELECTION_RECT_CLEAR \<and> t \<noteq> Str VIEWPORT_SET
        \<and> t \<noteq> Str VIEWPORT_RESET
      \<longrightarrow> reducer state action = Inr state)"
proof -
  have "reducer (Obj [])
     (Obj [(''type'', Str GRAPH_SIZE_SET),
           (''payload'', Obj [(''width'', Num (Fin 100)), (''height'', Num (Fin 50))])])
     = Inr (Obj [(''graphSize'', Obj [(''width'', Num (Fin 100)), (''height'', Num (Fin 50))])])"
    by (simp add: reducer_def then_do_def)
  moreover have "\<exists>s'. reducer state (Obj [(''type'', Str GRAPH_SELECTION_RECT_CLEAR)]) = Inr s'
        \<and> get_prop s' ''selectionRect'' = Inr Null"
    by (simp add: reducer_def then_do_def Let_def action_type_defs map_of_set_prop_same)
  moreover have "\<exists>s'. reducer state (Obj [(''type'', Str VIEWPORT_RESET)]) = Inr s'
        \<and> get_prop s' ''viewport'' = Inr Null"
    by (simp add: reducer_def then_do_def Let_def action_type_defs map_of_set_prop_same)
  moreover have "state \<noteq> Undefined \<and> get_prop action ''type'' = Inr t
        \<and> t \<noteq> Str GRAPH_SIZE_SET \<and> t \<noteq> Str GRAPH_SELECTION_RECT_SET
        \<and> t \<noteq> Str GRAPH_SELECTION_RECT_CLEAR \<and> t \<noteq> Str VIEWPORT_SET
        \<and> t \<noteq> Str VIEWPORT_RESET
      \<longrightarrow> reducer state action = Inr state"
    by (simp add: reducer_def then_do_def)
  ultimately show ?thesis by blast
qed

theorem reducer_transition_table_witness:
  "Obj [(''selectionRect'', Obj [(''top'', Num (Fin 1)), (''left'', Num (Fin 2)),
                                (''bottom'', Num (Fin 3)), (''right'', Num (Fin 4))])]
     \<noteq> Undefined
   \<and> get_prop (Obj [(''type'', Str ''UNKNOWN'')]) ''type'' = Inr (Str ''UNKNOWN'')
   \<and> Str ''UNKNOWN'' \<noteq> Str GRAPH_SIZE_SET
   \<and> Str ''UNKNOWN'' \<noteq> Str GRAPH_SELECTION_RECT_SET
   \<and> Str ''UNKNOWN'' \<noteq> Str GRAPH_SELECTION_RECT_CLEAR
   \<and> Str ''UNKNOWN'' \<noteq> Str VIEWPORT_SET
   \<and> Str ''UNKNOWN'' \<noteq> Str VIEWPORT_RESET
   \<and> reducer
        (Obj [(''selectionRect'', Obj [(''top'', Num (Fin 1)), (''left'', Num (Fin 2)),
                                      (''bottom'', Num (Fin 3)), (''right'', Num (Fin 4))])])
        (Obj [(''type'', Str ''UNKNOWN'')])
      = Inr (Obj [(''selectionRect'', Obj [(''top'', Num (Fin 1)), (''left'', Num (Fin 2)),
                                          (''bottom'', Num (Fin 3)), (''right'', Num (Fin 4))])])"
  using reducer_transition_table
    [of "Obj [(''selectionRect'', Obj [(''top'', Num (Fin 1)), (''left'', Num (Fin 2)),
                                      (''bottom'', Num (Fin 3)), (''right'', Num (Fin 4))])]"
        "Obj [(''type'', Str ''UNKNOWN'')]" "Str ''UNKNOWN''"]
  by (simp add: action_type_defs)

text \<open>
  C3, as the code has it. Every operation is a total function, so it terminates on every
  input. It does not throw when its input is present: the reducer for an action whose
  payload is an object or another value that is neither \<^verbatim>\<open>undefined\<close> nor \<^verbatim>\<open>null\<close>, and
  for an action of a type that carries no payload; the selectors on a store state whose
  layout state is present; the action creators on an argument that is neither
  \<^verbatim>\<open>undefined\<close> nor \<^verbatim>\<open>null\<close>; the position function on a size whose width and height are
  primitive values. A payload that lacks the expected fields is accepted, and the
  transition stores \<^verbatim>\<open>undefined\<close> fields.
\<close>

theorem operations_total:
  "(\<not> nullish action \<and> get_prop action ''payload'' = Inr p \<and> \<not> nullish p
      \<longrightarrow> (\<exists>s'. reducer state action = Inr s'))
   \<and> (get_prop action' ''type'' = Inr t \<and> t \<noteq> Str GRAPH_SIZE_SET
        \<and> t \<noteq> Str GRAPH_SELECTION_RECT_SET \<and> t \<noteq> Str VIEWPORT_SET
      \<longrightarrow> (\<exists>s'. reducer state action' = Inr s'))
   \<and> (\<exists>s'. reducer state (Obj [(''type'', Str GRAPH_SIZE_SET), (''payload'', Obj [])]) = Inr s'
        \<and> get_prop s' ''graphSize'' =
            Inr (Obj [(''width'', Undefined), (''height'', Undefined)]))
   \<and> (get_prop store MOUNT_POINT = Inr slice \<and> \<not> nullish slice
      \<longrightarrow> (\<exists>v. getViewport store = Inr v) \<and> (\<exists>v. getSelectionRect store = Inr v)
          \<and> (\<exists>v. getContainerSize store = Inr v))
   \<and> (\<not> nullish arg
      \<longrightarrow> (\<exists>a. setViewport arg = Inr a) \<and> (\<exists>a. setContainerSize arg = Inr a)
          \<and> (\<exists>a. setSelectionRect arg = Inr a))
   \<and> (get_prop containerSize ''width'' = Inr w \<and> get_prop containerSize ''height'' = Inr h
        \<and> primitive w \<and> primitive h
      \<longrightarrow> (\<exists>r. getChartPosition_resultFunc chartType containerSize = Inr r))"
proof -
  have "\<exists>s'. reducer state (Obj [(''type'', Str GRAPH_SIZE_SET), (''payload'', Obj [])]) = Inr s'
        \<and> get_prop s' ''graphSize'' =
            Inr (Obj [(''width'', Undefined), (''height'', Undefined)])"
    by (simp add: reducer_def then_do_def Let_def map_of_set_prop_same)
  then show ?thesis
    using reducer_total [of action p state] reducer_total_no_payload [of action' t state]
      selectors_total [of store slice] creators_total [of arg]
      resultFunc_total [of containerSize w h chartType]
    by blast
qed

theorem operations_total_witness:
  "\<not> nullish (Obj [(''type'', Str GRAPH_SIZE_SET), (''payload'', Obj [])])
   \<and> get_prop (Obj [(''type'', Str GRAPH_SIZE_SET), (''payload'', Obj [])]) ''payload''
        = Inr (Obj [])
   \<and> \<not> nullish (Obj [])
   \<and> (\<exists>s'. reducer (Obj []) (Obj [(''type'', Str GRAPH_SIZE_SET), (''payload'', Obj [])])
        = Inr s')
   \<and> get_prop (Obj [(''type'', Str ''UNKNOWN'')]) ''type'' = Inr (Str ''UNKNOWN'')
   \<and> Str ''UNKNOWN'' \<noteq> Str GRAPH_SIZE_SET
   \<and> Str ''UNKNOWN'' \<noteq> Str GRAPH_SELECTION_RECT_SET
   \<and> Str ''UNKNOWN'' \<noteq> Str VIEWPORT_SET
   \<and> (\<exists>s'. reducer (Obj []) (Obj [(''type'', Str ''UNKNOWN'')]) = Inr s')
   \<and> get_prop (mounted (Obj [])) MOUNT_POINT = Inr (Obj [])
   \<and> (\<exists>v. getViewport (mounted (Obj [])) = Inr v)
   \<and> (\<exists>a. setViewport (Obj []) = Inr a)
   \<and> get_prop (Obj [(''width'', Num (Fin 100))]) ''width'' = Inr (Num (Fin 100))
   \<and> get_prop (Obj [(''width'', Num (Fin 100))]) ''height'' = Inr Undefined
   \<and> primitive (Num (Fin 100)) \<and> primitive Undefined
   \<and> (\<exists>r. getChartPosition_resultFunc (Str ''main'') (Obj [(''width'', Num (Fin 100))])
        = Inr r)"
  using operations_total [of "Obj [(''type'', Str GRAPH_SIZE_SET), (''payload'', Obj [])]"
      "Obj []" "Obj []" "Obj [(''type'', Str ''UNKNOWN'')]" "Str ''UNKNOWN''"
      "mounted (Obj [])" "Obj []" "Obj []" "Obj [(''width'', Num (Fin 100))]"
      "Num (Fin 100)" Undefined "Str ''main''"]
  by (simp add: nullish_def mounted_def action_type_defs)

text \<open>
  C3, as the claim states it, fails: for a recognised action whose payload is missing,
  the reducer reads \<^verbatim>\<open>width\<close> of \<^verbatim>\<open>undefined\<close> and throws; no state is returned.
\<close>

theorem reducer_missing_payload_throws:
  "reducer (Obj []) (Obj [(''type'', Str GRAPH_SIZE_SET)]) = Inl TypeError"
  by (simp add: reducer_def then_do_def)

text \<open>
  C4, as the code has it. \<^verbatim>\<open>getContainerSize\<close> reads the layout state under the key
  \<open>MOUNT_POINT\<close> of the store state. For every store state whose layout state is an
  object without a \<^verbatim>\<open>graphSize\<close> property, it returns the default
  \<^verbatim>\<open>{width: 0, height: 0}\<close>; in particular for the empty layout state.
\<close>

theorem getContainerSize_default:
  assumes "get_prop state MOUNT_POINT = Inr (Obj sl)"
    and "map_of sl ''graphSize'' = None"
  shows "getContainerSize state = Inr (Obj [(''width'', Num (Fin 0)), (''height'', Num (Fin 0))])"
  using assms by (simp add: getContainerSize_def then_do_def)

theorem getContainerSize_default_witness:
  "get_prop (mounted (Obj [])) MOUNT_POINT = Inr (Obj [])
   \<and> map_of ([] :: (string \<times> jsval) list) ''graphSize'' = None
   \<and> getContainerSize (mounted (Obj [])) =
       Inr (Obj [(''width'', Num (Fin 0)), (''height'', Num (Fin 0))])"
  using getContainerSize_default [of "mounted (Obj [])" "[]"]
  by (simp add: mounted_def)

text \<open>
  C4, as the claim states it, fails: on the empty object \<^verbatim>\<open>{}\<close> the selector reads
  \<^verbatim>\<open>graphSize\<close> of \<^verbatim>\<open>undefined\<close>, which throws.
\<close>

theorem getContainerSize_empty_state_throws:
  "getContainerSize (Obj []) = Inl TypeError"
  by (simp add: getContainerSize_def then_do_def)

text \<open>
  C5, as the code has it. The heights of the two rectangles are the doubles nearest to
  \<open>h * 0.8\<close> and \<open>h * 0.2\<close>, and their sum is rounded again. For every container size
  whose height \<open>h\<close> is a Number with \<open>h \<ge> 0\<close>, whatever its width, the height of
  the \<^verbatim>\<open>main\<close> rectangle plus the height of the \<^verbatim>\<open>panner\<close> rectangle is infinite when
  \<open>h\<close> is, and otherwise a finite Number that differs from \<open>h\<close> by at most
  \<open>h * 2 powi (- 51)\<close>; so the sum is zero when the height is zero.
\<close>

theorem main_panner_heights_sum_close:
  assumes "is_number h" "num_ge_zero h"
  shows "\<exists>s. main_panner_height_sum (Obj [(''width'', w), (''height'', Num h)]) = Some s
     \<and> (if h = PosInf then s = PosInf
         else s \<noteq> NaN \<and> \<not> is_inf s \<and> \<bar>val s - val h\<bar> \<le> val h * 2 powi (- 51))"
proof (cases h)
  case NaN
  then show ?thesis using assms(2) by simp
next
  case PosInf
  then show ?thesis
    unfolding height_sum_eq_num lit_0_8 lit_0_2
    by (simp add: num_mul_def num_add_def signed_inf_def)
next
  case NegInf
  then show ?thesis using assms(2) by simp
next
  case NegZero
  then show ?thesis
    unfolding height_sum_eq_num lit_0_8 lit_0_2
    by (simp add: num_mul_def num_add_def round_double_def signed_zero_def)
next
  case (Fin r)
  show ?thesis
  proof (cases "r = 0")
    case True
    then show ?thesis
      unfolding height_sum_eq_num lit_0_8 lit_0_2 Fin
      by (simp add: num_mul_def num_add_def round_double_def signed_zero_def)
  next
    case False
    then have "0 < r" "is_double r" using assms Fin by simp_all
    from heights_close_double [OF this(2,1)] show ?thesis
      unfolding height_sum_eq_num Fin by auto
  qed
qed

theorem main_panner_heights_sum_close_witness:
  "is_number (Fin 3) \<and> num_ge_zero (Fin 3)
   \<and> (\<exists>s. main_panner_height_sum (Obj [(''width'', Num (Fin 3)), (''height'', Num (Fin 3))])
           = Some s
        \<and> s \<noteq> NaN \<and> \<not> is_inf s \<and> \<bar>val s - 3\<bar> \<le> 3 * 2 powi (- 51))
   \<and> is_number (Fin 0) \<and> num_ge_zero (Fin 0)
   \<and> (\<exists>s. main_panner_height_sum (Obj [(''width'', Num (Fin 0)), (''height'', Num (Fin 0))])
           = Some s
        \<and> s \<noteq> NaN \<and> \<not> is_inf s \<and> val s = 0)"
proof -
  have 1: "is_number (Fin 3)"
    by (simp add: is_double_def num_of_rat_def round_double_normal [where e = 1] round_eval)
  have 2: "num_ge_zero (Fin 3)" by simp
  have 3: "is_number (Fin 0)"
    by (simp add: is_double_def num_of_rat_def round_double_def signed_zero_def)
  have 4: "num_ge_zero (Fin 0)" by simp
  from main_panner_heights_sum_close [OF 1 2, of "Num (Fin 3)"]
    main_panner_heights_sum_close [OF 3 4, of "Num (Fin 0)"] 1 2 3 4
  show ?thesis by simp
qed

text \<open>
  C5, as the claim states it, fails: for the height 3 the two heights are
  2.4000000000000004 and 0.6000000000000001, and their sum is 3.0000000000000004,
  which is not equal to 3.
\<close>

theorem main_panner_heights_sum_inexact:
  "main_panner_height_sum (Obj [(''width'', Num (Fin 3)), (''height'', Num (Fin 3))])
     = Some (Fin (6755399441055745 / 2251799813685248))
   \<and> \<not> num_eq (Fin (6755399441055745 / 2251799813685248)) (Fin 3)"
  unfolding height_sum_eq_num mul_3_08 mul_3_02 add_3 by (simp add: num_eq_def)

text \<open>
  C6. For every chart type other than \<^verbatim>\<open>'main'\<close>, \<^verbatim>\<open>'panner'\<close> and \<^verbatim>\<open>'lithography'\<close> and
  every container size, whatever value it is, the position function returns
  \<^verbatim>\<open>undefined\<close> and does not throw; so does the selector on every store state from which
  a container size is selected.
\<close>

theorem unknown_chart_type:
  assumes "chartType \<noteq> Str ''main''" "chartType \<noteq> Str ''panner''"
    "chartType \<noteq> Str ''lithography''"
  shows "getChartPosition_resultFunc chartType containerSize = Inr Undefined
    \<and> (getContainerSize store = Inr containerSize
         \<longrightarrow> getChartPosition chartType store = Inr Undefined)"
  using assms by (simp add: getChartPosition_resultFunc_def getChartPosition_def then_do_def)

theorem unknown_chart_type_witness:
  "Str ''histogram'' \<noteq> Str ''main'' \<and> Str ''histogram'' \<noteq> Str ''panner''
   \<and> Str ''histogram'' \<noteq> Str ''lithography''
   \<and> getContainerSize (mounted (Obj [])) =
       Inr (Obj [(''width'', Num (Fin 0)), (''height'', Num (Fin 0))])
   \<and> getChartPosition_resultFunc (Str ''histogram'')
       (Obj [(''width'', Num (Fin 0)), (''height'', Num (Fin 0))]) = Inr Undefined
   \<and> getChartPosition (Str ''histogram'') (mounted (Obj [])) = Inr Undefined"
  using unknown_chart_type [of "Str ''histogram''"
      "Obj [(''width'', Num (Fin 0)), (''height'', Num (Fin 0))]" "mounted (Obj [])"]
  by (simp add: getContainerSize_def mounted_def then_do_def)

text \<open>
  C7. For every domain \<open>(a, b)\<close> and container size, the scale built by \<open>getScaleX\<close> has
  the domain \<open>(a, b)\<close> and the range from 0 to the width of the container, and the scale
  built by \<open>getScaleY\<close> has the domain \<open>(a, b)\<close> and the range from 0 to the height. Both
  are functions of their two arguments only.
\<close>

theorem scale_domain_range:
  "scale_domain (getScaleX (a, b) containerSize) = (a, b)
   \<and> scale_range (getScaleX (a, b) containerSize) = (Fin 0, cs_width containerSize)
   \<and> scale_domain (getScaleY (a, b) containerSize) = (a, b)
   \<and> scale_range (getScaleY (a, b) containerSize) = (Fin 0, cs_height containerSize)"
  by (simp add: getScaleX_def getScaleY_def)

text \<open>
  C8. The reducer builds its result with an object literal and assigns to nothing, so
  the input state is not changed. For every state object and every action, the state
  returned has, under every key other than the one the action type targets, what the
  input state has: a set-container-size transition leaves \<^verbatim>\<open>selectionRect\<close> and
  \<^verbatim>\<open>viewport\<close> as they were, a transition that sets or clears the selection rectangle
  leaves \<^verbatim>\<open>graphSize\<close> and \<^verbatim>\<open>viewport\<close>, one that sets or resets the viewport leaves
  \<^verbatim>\<open>graphSize\<close> and \<^verbatim>\<open>selectionRect\<close>.
\<close>

theorem reducer_frame:
  assumes "reducer (Obj ps) action = Inr s'"
    and "get_prop action ''type'' = Inr t"
    and "target_field t \<noteq> Some k"
  shows "get_prop s' k = get_prop (Obj ps) k"
  using reducer_result [OF assms(1,2)] assms(3)
  by (auto simp: map_of_set_prop_other)

theorem reducer_frame_witness:
  "reducer
     (Obj [(''selectionRect'', Null),
           (''viewport'', Obj [(''startDate'', Num (Fin 1)), (''endDate'', Num (Fin 2))])])
     (Obj [(''type'', Str GRAPH_SIZE_SET),
           (''payload'', Obj [(''width'', Num (Fin 100)), (''height'', Num (Fin 50))])])
    = Inr (Obj [(''selectionRect'', Null),
                (''viewport'', Obj [(''startDate'', Num (Fin 1)), (''endDate'', Num (Fin 2))]),
                (''graphSize'', Obj [(''width'', Num (Fin 100)), (''height'', Num (Fin 50))])])
   \<and> target_field (Str GRAPH_SIZE_SET) \<noteq> Some ''viewport''
   \<and> get_prop
        (Obj [(''selectionRect'', Null),
              (''viewport'', Obj [(''startDate'', Num (Fin 1)), (''endDate'', Num (Fin 2))]),
              (''graphSize'', Obj [(''width'', Num (Fin 100)), (''height'', Num (Fin 50))])])
        ''viewport''
     = get_prop
        (Obj [(''selectionRect'', Null),
              (''viewport'', Obj [(''startDate'', Num (Fin 1)), (''endDate'', Num (Fin 2))])])
        ''viewport''"
  using reducer_frame
    [of "[(''selectionRect'', Null),
          (''viewport'', Obj [(''startDate'', Num (Fin 1)), (''endDate'', Num (Fin 2))])]"
        "Obj [(''type'', Str GRAPH_SIZE_SET),
              (''payload'', Obj [(''width'', Num (Fin 100)), (''height'', Num (Fin 50))])]"
        "Obj [(''selectionRect'', Null),
              (''viewport'', Obj [(''startDate'', Num (Fin 1)), (''endDate'', Num (Fin 2))]),
              (''graphSize'', Obj [(''width'', Num (Fin 100)), (''height'', Num (Fin 50))])]"
        "Str GRAPH_SIZE_SET" "''viewport''"]
  by (simp add: reducer_def then_do_def target_field_def action_type_defs)

text \<open>
  C10, as the code has it. The selectors read the layout state under the key
  \<open>MOUNT_POINT\<close> of the store state, where the default export mounts the reducer. For
  every state \<open>s\<close>: the action made by \<^verbatim>\<open>setViewport\<close> from an argument with the
  properties \<^verbatim>\<open>startDate: d1\<close>, \<^verbatim>\<open>endDate: d2\<close> and any further ones has the payload
  \<^verbatim>\<open>{startDate: d1, endDate: d2}\<close> exactly, the reducer applied to \<open>s\<close> and this action
  returns a state, and on the store state that holds this state under \<open>MOUNT_POINT\<close>,
  \<^verbatim>\<open>getViewport\<close> returns \<^verbatim>\<open>{startDate: d1, endDate: d2}\<close>. Likewise for
  \<^verbatim>\<open>setSelectionRect\<close> with \<^verbatim>\<open>getSelectionRect\<close> and the four fields of the rectangle,
  and for \<^verbatim>\<open>setContainerSize\<close> with \<^verbatim>\<open>getContainerSize\<close>.
\<close>

theorem round_trip_mounted:
  "(\<exists>a s'. setViewport (Obj ((''startDate'', d1) # (''endDate'', d2) # extra)) = Inr a
      \<and> get_prop a ''payload'' = Inr (Obj [(''startDate'', d1), (''endDate'', d2)])
      \<and> reducer s a = Inr s'
      \<and> getViewport (mounted s') = Inr (Obj [(''startDate'', d1), (''endDate'', d2)]))
   \<and> (\<exists>a s'. setSelectionRect
             (Obj ((''top'', t) # (''left'', l) # (''bottom'', b) # (''right'', r) # extra))
           = Inr a
      \<and> get_prop a ''payload'' =
          Inr (Obj [(''top'', t), (''left'', l), (''bottom'', b), (''right'', r)])
      \<and> reducer s a = Inr s'
      \<and> getSelectionRect (mounted s') =
          Inr (Obj [(''top'', t), (''left'', l), (''bottom'', b), (''right'', r)]))
   \<and> (\<exists>a s'. setContainerSize (Obj ((''width'', w) # (''height'', h) # extra)) = Inr a
      \<and> get_prop a ''payload'' = Inr (Obj [(''width'', w), (''height'', h)])
      \<and> reducer s a = Inr s'
      \<and> getContainerSize (mounted s') = Inr (Obj [(''width'', w), (''height'', h)]))"
  by (simp add: setViewport_def setSelectionRect_def setContainerSize_def reducer_def
      then_do_def Let_def getViewport_def getSelectionRect_def getContainerSize_def
      mounted_def action_type_defs map_of_set_prop_same)

text \<open>
  C10, as the claim states it, fails: the state that the reducer returns has no property
  \<open>MOUNT_POINT\<close>, so \<^verbatim>\<open>getViewport\<close> applied to it reads \<^verbatim>\<open>viewport\<close> of \<^verbatim>\<open>undefined\<close> and
  throws.
\<close>

theorem round_trip_unmounted_throws:
  "setViewport (Obj [(''startDate'', Num (Fin 1)), (''endDate'', Num (Fin 2))]) =
     Inr (Obj [(''type'', Str VIEWPORT_SET),
               (''payload'', Obj [(''startDate'', Num (Fin 1)), (''endDate'', Num (Fin 2))])])
   \<and> reducer (Obj [])
       (Obj [(''type'', Str VIEWPORT_SET),
             (''payload'', Obj [(''startDate'', Num (Fin 1)), (''endDate'', Num (Fin 2))])]) =
     Inr (Obj [(''viewport'', Obj [(''startDate'', Num (Fin 1)), (''endDate'', Num (Fin 2))])])
   \<and> getViewport
       (Obj [(''viewport'', Obj [(''startDate'', Num (Fin 1)), (''endDate'', Num (Fin 2))])]) =
     Inl TypeError"
  by (simp add: setViewport_def reducer_def then_do_def getViewport_def action_type_defs)

end
